theory Spec2Isabelle
  imports Complex_Main
begin

section \<open>Python strings and integers used by the annotation tool\<close>

text \<open>
  Strings are lists of characters; a character stands for a code point below 256.
  The builtins of Python that \<^verbatim>\<open>app.py\<close> calls on strings are modelled here:
  \<^verbatim>\<open>str.isspace\<close>, \<^verbatim>\<open>str.strip()\<close>, \<^verbatim>\<open>str.split()\<close>,
  \<^verbatim>\<open>str.split(':')\<close>, \<^verbatim>\<open>int(str)\<close>, \<^verbatim>\<open>str(int)\<close> and the
  format specification \<^verbatim>\<open>02\<close>. The whitespace that \<^verbatim>\<open>int\<close> skips around a
  numeral is a smaller set than the whitespace of \<^verbatim>\<open>strip\<close> and \<^verbatim>\<open>split\<close>: the
  separators U+001C to U+001F are whitespace for these two only.
\<close>

datatype error = ValueError | IndexError

definition py_isspace :: "char \<Rightarrow> bool" where
  \<comment> \<open>the code points below 256 that Python treats as whitespace\<close>
  "py_isspace c = (c \<in> set [CHR 0x09, CHR 0x0A, CHR 0x0B, CHR 0x0C, CHR 0x0D,
       CHR 0x1C, CHR 0x1D, CHR 0x1E, CHR 0x1F, CHR 0x20, CHR 0x85, CHR 0xA0])"

definition py_int_space :: "char \<Rightarrow> bool" where
  \<comment> \<open>the code points below 256 that \<^verbatim>\<open>int\<close> skips around a numeral\<close>
  "py_int_space c = (c \<in> set [CHR 0x09, CHR 0x0A, CHR 0x0B, CHR 0x0C, CHR 0x0D,
       CHR 0x20, CHR 0x85, CHR 0xA0])"

definition py_strip :: "string \<Rightarrow> string" where
  "py_strip s = rev (dropWhile py_isspace (rev (dropWhile py_isspace s)))"

fun split_ws :: "string \<Rightarrow> string \<Rightarrow> string list" where
  \<comment> \<open>\<^verbatim>\<open>str.split()\<close>: runs of whitespace separate the tokens; the first argument
      is the token read so far\<close>
  "split_ws cur [] = (if cur = [] then [] else [cur])"
| "split_ws cur (c # cs) =
     (if py_isspace c then (if cur = [] then split_ws [] cs else cur # split_ws [] cs)
      else split_ws (cur @ [c]) cs)"

definition py_split :: "string \<Rightarrow> string list" where
  "py_split s = split_ws [] s"

fun py_split_sep :: "char \<Rightarrow> string \<Rightarrow> string list" where
  \<comment> \<open>\<^verbatim>\<open>str.split(sep)\<close> for a separator of one character: every occurrence cuts\<close>
  "py_split_sep sep [] = [[]]"
| "py_split_sep sep (c # cs) =
     (if c = sep then [] # py_split_sep sep cs
      else (case py_split_sep sep cs of [] \<Rightarrow> [[c]] | t # ts \<Rightarrow> (c # t) # ts))"

definition digit_val :: "char \<Rightarrow> nat option" where
  "digit_val c = (let n = (of_char c :: nat) in if 48 \<le> n \<and> n \<le> 57 then Some (n - 48) else None)"

definition digit_char :: "nat \<Rightarrow> char" where
  "digit_char d = char_of (48 + d)"

fun py_digits :: "nat \<Rightarrow> string \<Rightarrow> nat option" where
  \<comment> \<open>the digits after the first one; a single underscore may stand between two digits\<close>
  "py_digits acc [] = Some acc"
| "py_digits acc (c # cs) =
     (if c = CHR ''_'' then
        (case cs of
           [] \<Rightarrow> None
         | d # ds \<Rightarrow> (case digit_val d of None \<Rightarrow> None | Some v \<Rightarrow> py_digits (10 * acc + v) ds))
      else (case digit_val c of None \<Rightarrow> None | Some v \<Rightarrow> py_digits (10 * acc + v) cs))"

definition py_number :: "string \<Rightarrow> nat option" where
  "py_number s =
     (case s of
        [] \<Rightarrow> None
      | c # cs \<Rightarrow> (case digit_val c of None \<Rightarrow> None | Some v \<Rightarrow> py_digits v cs))"

definition py_int :: "string \<Rightarrow> int option" where
  \<comment> \<open>\<^verbatim>\<open>int(s)\<close>: \<open>None\<close> stands for the ValueError\<close>
  "py_int s =
     (let t = rev (dropWhile py_int_space (rev (dropWhile py_int_space s))) in
      case t of
        [] \<Rightarrow> None
      | c # cs \<Rightarrow>
          if c = CHR ''-'' then map_option (\<lambda>n. - int n) (py_number cs)
          else if c = CHR ''+'' then map_option int (py_number cs)
          else map_option int (py_number t))"

function nat_digits :: "nat \<Rightarrow> string" where
  "nat_digits n = (if n < 10 then [digit_char n] else nat_digits (n div 10) @ [digit_char (n mod 10)])"
  by pat_completeness auto
termination
  by (relation "measure id") auto

declare nat_digits.simps [simp del]

definition py_str :: "int \<Rightarrow> string" where
  \<comment> \<open>\<^verbatim>\<open>str(n)\<close>, which is also what \<^verbatim>\<open>{n}\<close> prints in an f-string\<close>
  "py_str n = (if n < 0 then CHR ''-'' # nat_digits (nat (- n)) else nat_digits (nat n))"

definition py_format_02 :: "int \<Rightarrow> string" where
  \<comment> \<open>\<^verbatim>\<open>{n:02}\<close>: zero-padded to two characters, the sign counted in the width\<close>
  "py_format_02 n =
     (if n < 0 then CHR ''-'' # nat_digits (nat (- n))
      else replicate (2 - length (nat_digits (nat n))) CHR ''0'' @ nat_digits (nat n))"

section \<open>Time codec\<close>

definition time_to_seconds :: "string \<Rightarrow> error + int" where
  "time_to_seconds time_str =
     (case map py_int (py_split_sep CHR '':'' time_str) of
        [Some h, Some m, Some s] \<Rightarrow> Inr (h * 3600 + m * 60 + s)
      | _ \<Rightarrow> Inl ValueError)"

text \<open>
  The seconds that \<^verbatim>\<open>seconds_to_time\<close> receives are the times of the intervals: Python
  integers when they come from the annotation file, floats when they come from the number
  fields of the form. A float is modelled by the real number it stands for; rounding,
  infinities and nan are outside the model.
\<close>

datatype number = PyInt int | PyFloat real

fun num_val :: "number \<Rightarrow> real" where
  "num_val (PyInt n) = of_int n"
| "num_val (PyFloat x) = x"

fun py_floordiv :: "number \<Rightarrow> int \<Rightarrow> number" where
  \<comment> \<open>\<^verbatim>\<open>x // k\<close> for a positive integer \<open>k\<close>\<close>
  "py_floordiv (PyInt n) k = PyInt (n div k)"
| "py_floordiv (PyFloat x) k = PyFloat (of_int \<lfloor>x / of_int k\<rfloor>)"

fun py_mod :: "number \<Rightarrow> int \<Rightarrow> number" where
  \<comment> \<open>\<^verbatim>\<open>x % k\<close> for a positive integer \<open>k\<close>\<close>
  "py_mod (PyInt n) k = PyInt (n mod k)"
| "py_mod (PyFloat x) k = PyFloat (x - of_int k * of_int \<lfloor>x / of_int k\<rfloor>)"

fun to_int :: "number \<Rightarrow> int" where
  \<comment> \<open>\<^verbatim>\<open>int(x)\<close>: a float is cut towards zero\<close>
  "to_int (PyInt n) = n"
| "to_int (PyFloat x) = (if 0 \<le> x then \<lfloor>x\<rfloor> else \<lceil>x\<rceil>)"

definition seconds_to_time :: "number \<Rightarrow> string" where
  "seconds_to_time seconds =
     (let h = py_floordiv seconds 3600;
          m = py_floordiv (py_mod seconds 3600) 60;
          s = py_mod seconds 60
      in py_format_02 (to_int h) @ '':'' @ py_format_02 (to_int m) @ '':'' @
         py_format_02 (to_int s))"

section \<open>Annotation loader\<close>

text \<open>
  The dictionaries \<^verbatim>\<open>{'time', 'description'}\<close> and
  \<^verbatim>\<open>{'start', 'end', 'description'}\<close> of \<^verbatim>\<open>load_edf_with_annotations\<close>.
  The time of a marker is the integer that \<^verbatim>\<open>time_to_seconds\<close> returns; the start and
  the end of an interval are numbers, since \<^verbatim>\<open>add_markup\<close> and \<^verbatim>\<open>edit_markup\<close>
  store what the number fields deliver.
\<close>

record annotation =
  time :: int
  a_description :: string

record interval =
  start :: number
  end' :: number
  description :: string

fun read_annotations :: "string list \<Rightarrow> annotation list \<Rightarrow> error + annotation list" where
  \<comment> \<open>the loop over the lines of the annotation file; only a ValueError is caught\<close>
  "read_annotations [] annotations = Inr annotations"
| "read_annotations (line # rest) annotations =
     (let parts = py_split (py_strip line) in
      if length parts \<noteq> 3 then read_annotations rest annotations
      else
        (case time_to_seconds (parts ! 1) of
           Inr onset \<Rightarrow>
             read_annotations rest
               (annotations @ [\<lparr>time = onset, a_description = parts ! 2\<rparr>])
         | Inl ValueError \<Rightarrow> read_annotations rest annotations
         | Inl e \<Rightarrow> Inl e))"

definition py_last :: "string \<Rightarrow> error + char" where
  \<comment> \<open>\<^verbatim>\<open>s[-1]\<close>\<close>
  "py_last s = (if s = [] then Inl IndexError else Inr (last s))"

definition pair_test :: "annotation \<Rightarrow> annotation \<Rightarrow> error + bool" where
  \<comment> \<open>the condition of the inner \<^verbatim>\<open>if\<close>, evaluated left to right; \<^verbatim>\<open>s[:-1]\<close> is
      \<open>butlast s\<close>\<close>
  "pair_test start_annotation end_annotation =
     (if butlast (a_description start_annotation) \<noteq> butlast (a_description end_annotation)
      then Inr False
      else
        (case py_last (a_description start_annotation) of
           Inl e \<Rightarrow> Inl e
         | Inr c \<Rightarrow>
             if c \<noteq> CHR ''1'' then Inr False
             else
               (case py_last (a_description end_annotation) of
                  Inl e \<Rightarrow> Inl e
                | Inr d \<Rightarrow> Inr (d = CHR ''2''))))"

function create_intervals :: "annotation list \<Rightarrow> nat \<Rightarrow> interval list \<Rightarrow> error + interval list" where
  \<comment> \<open>\<^verbatim>\<open>for i in range(0, len(annotations) - 1, 2)\<close>, from index \<open>i\<close> on\<close>
  "create_intervals annotations i intervals =
     (if int i < int (length annotations) - 1 then
        (if i + 1 < length annotations then
           (case pair_test (annotations ! i) (annotations ! (i + 1)) of
              Inl e \<Rightarrow> Inl e
            | Inr True \<Rightarrow>
                create_intervals annotations (i + 2)
                  (intervals @
                    [\<lparr>start = PyInt (time (annotations ! i)),
                      end' = PyInt (time (annotations ! (i + 1))),
                      description = butlast (a_description (annotations ! i))\<rparr>])
            | Inr False \<Rightarrow> create_intervals annotations (i + 2) intervals)
         else create_intervals annotations (i + 2) intervals)
      else Inr intervals)"
  by pat_completeness auto
termination
  by (relation "measure (\<lambda>(annotations, i, intervals). length annotations - i)") auto

declare create_intervals.simps [simp del]

definition load_annotations :: "string list \<Rightarrow> error + interval list" where
  \<comment> \<open>lines 44 to 71 of \<^verbatim>\<open>load_edf_with_annotations\<close>, from the lines of the file\<close>
  "load_annotations file_lines =
     (case read_annotations file_lines [] of
        Inl e \<Rightarrow> Inl e
      | Inr annotations \<Rightarrow> create_intervals annotations 0 [])"



section \<open>Interval store\<close>

definition choice_text :: "nat \<Rightarrow> interval \<Rightarrow> string" where
  "choice_text i iv =
     py_str (int i + 1) @ '': '' @ seconds_to_time (start iv) @ '' - '' @
     seconds_to_time (end' iv) @ '' ('' @ description iv @ '')''"

definition interval_choices :: "interval list \<Rightarrow> string list" where
  "interval_choices ivs = map (\<lambda>(i, iv). choice_text i iv) (enumerate 0 ivs)"

definition add_markup ::
  "number \<Rightarrow> number \<Rightarrow> string \<Rightarrow> interval list \<Rightarrow> interval list" where
  "add_markup start_time end_time label markup_intervals =
     markup_intervals @ [\<lparr>start = start_time, end' = end_time, description = label\<rparr>]"

definition selected_index :: "string \<Rightarrow> error + int" where
  \<comment> \<open>\<^verbatim>\<open>int(selected_interval.split(":")[0]) - 1\<close>\<close>
  "selected_index selected_interval =
     (case py_int (hd (py_split_sep CHR '':'' selected_interval)) of
        None \<Rightarrow> Inl ValueError
      | Some p \<Rightarrow> Inr (p - 1))"

definition py_index :: "nat \<Rightarrow> int \<Rightarrow> error + nat" where
  \<comment> \<open>the position that index \<open>i\<close> names in a Python list of length \<open>n\<close>: a negative
      index counts from the end\<close>
  "py_index n i =
     (let j = (if i < 0 then i + int n else i)
      in if 0 \<le> j \<and> j < int n then Inr (nat j) else Inl IndexError)"

text \<open>
  \<^verbatim>\<open>edit_markup\<close> writes into the dictionary it finds in the list, and the list may hold
  the same dictionary at several positions (the click handler passes the same state as
  \<^verbatim>\<open>existing_intervals\<close> and as \<^verbatim>\<open>markup_intervals\<close>). So its lists hold
  references and a store gives each reference its dictionary. \<^verbatim>\<open>add_markup\<close>,
  \<^verbatim>\<open>delete_markup\<close> and \<^verbatim>\<open>save_markup_to_file\<close> write into no dictionary and
  are modelled on lists of values.
\<close>

type_synonym ref = nat
type_synonym store = "ref \<Rightarrow> interval"

definition edit_markup ::
  "store \<Rightarrow> string \<Rightarrow> number \<Rightarrow> number \<Rightarrow> string \<Rightarrow> ref list \<Rightarrow> ref list \<Rightarrow>
   error + (store \<times> ref list \<times> string list)" where
  "edit_markup st selected_interval start_time end_time label existing_intervals markup_intervals =
     (let all_intervals = existing_intervals @ markup_intervals in
      case selected_index selected_interval of
        Inl e \<Rightarrow> Inl e
      | Inr index \<Rightarrow>
          (case py_index (length all_intervals) index of
             Inl e \<Rightarrow> Inl e
           | Inr j \<Rightarrow>
               let r = all_intervals ! j;
                   st1 = st(r := (st r)\<lparr>start := start_time\<rparr>);
                   st2 = st1(r := (st1 r)\<lparr>end' := end_time\<rparr>);
                   st3 = st2(r := (st2 r)\<lparr>description := label\<rparr>)
               in Inr (st3, all_intervals, interval_choices (map st3 all_intervals))))"

definition delete_markup ::
  "string \<Rightarrow> interval list \<Rightarrow> interval list \<Rightarrow> error + (interval list \<times> string list)" where
  "delete_markup selected_interval existing_intervals markup_intervals =
     (let all_intervals = existing_intervals @ markup_intervals in
      case selected_index selected_interval of
        Inl e \<Rightarrow> Inl e
      | Inr index \<Rightarrow>
          (case py_index (length all_intervals) index of
             Inl e \<Rightarrow> Inl e
           | Inr j \<Rightarrow>
               let all_intervals' = take j all_intervals @ drop (j + 1) all_intervals
               in Inr (all_intervals', interval_choices all_intervals')))"

section \<open>Persistence\<close>



section \<open>Notions used to state the properties\<close>

text \<open>
  The specification speaks of valid lines, of the pattern a pair of labels has to match, of
  the pairs at even positions and of integer tokens. The next definitions follow its words;
  the theorems compare them with the functions above, which follow the code.
\<close>

definition is_digit :: "char \<Rightarrow> bool" where
  \<comment> \<open>a decimal digit\<close>
  "is_digit c = (digit_val c \<noteq> None)"

definition line_marker :: "string \<Rightarrow> annotation option" where
  \<comment> \<open>what the specification calls a valid line: exactly three whitespace-separated
      tokens, the second accepted by the time codec; the marker such a line gives\<close>
  "line_marker line =
     (case py_split (py_strip line) of
        [index_token, time_token, label] \<Rightarrow>
          (case time_to_seconds time_token of
             Inr onset \<Rightarrow> Some \<lparr>time = onset, a_description = label\<rparr>
           | Inl e \<Rightarrow> None)
      | _ \<Rightarrow> None)"

definition labels_pair :: "string \<Rightarrow> string \<Rightarrow> bool" where
  \<comment> \<open>the two labels agree on all characters except the last, the first ends in 1 and
      the second in 2\<close>
  "labels_pair a b =
     (a \<noteq> [] \<and> b \<noteq> [] \<and> butlast a = butlast b \<and> last a = CHR ''1'' \<and> last b = CHR ''2'')"

definition pair_interval :: "annotation \<Rightarrow> annotation \<Rightarrow> interval list" where
  \<comment> \<open>the interval a matching pair of markers gives; no interval otherwise\<close>
  "pair_interval a b =
     (if labels_pair (a_description a) (a_description b)
      then [\<lparr>start = PyInt (time a), end' = PyInt (time b),
             description = butlast (a_description a)\<rparr>]
      else [])"

definition pairing_spec :: "annotation list \<Rightarrow> interval list" where
  \<comment> \<open>the markers taken two at a time, at the positions \<open>2 * k\<close> and \<open>2 * k + 1\<close>\<close>
  "pairing_spec ms =
     concat (map (\<lambda>k. pair_interval (ms ! (2 * k)) (ms ! (2 * k + 1))) [0..<length ms div 2])"

definition plain_integer :: "string \<Rightarrow> bool" where
  \<comment> \<open>an integer in the plain sense: an optional sign and one or more decimal digits\<close>
  "plain_integer s =
     (let ds = (if s \<noteq> [] \<and> (hd s = CHR ''+'' \<or> hd s = CHR ''-'') then tl s else s)
      in ds \<noteq> [] \<and> list_all is_digit ds)"

definition dec_step :: "nat \<Rightarrow> char \<Rightarrow> nat" where
  \<comment> \<open>one more decimal digit to the right\<close>
  "dec_step a c = 10 * a + the (digit_val c)"

definition dec_value :: "string \<Rightarrow> nat" where
  \<comment> \<open>the number that a string of decimal digits writes\<close>
  "dec_value ds = foldl dec_step 0 ds"

definition digit_groups :: "string list \<Rightarrow> bool" where
  \<comment> \<open>one or more groups of one or more decimal digits each\<close>
  "digit_groups gs = (gs \<noteq> [] \<and> (\<forall>g \<in> set gs. g \<noteq> [] \<and> (\<forall>c \<in> set g. is_digit c)))"

definition join_underscore :: "string list \<Rightarrow> string" where
  \<comment> \<open>the groups with one underscore between neighbours\<close>
  "join_underscore gs = hd gs @ concat (map ((#) CHR ''_'') (tl gs))"

definition int_text :: "string \<Rightarrow> int \<Rightarrow> bool" where
  \<comment> \<open>an integer as \<^verbatim>\<open>int\<close> reads it, said without the parser: an optional sign and
      decimal digits, single underscores allowed between digits, whitespace allowed around\<close>
  "int_text s n =
     (\<exists>ws1 sgn gs ws2.
        s = ws1 @ sgn @ join_underscore gs @ ws2 \<and>
        (\<forall>c \<in> set ws1. py_int_space c) \<and> (\<forall>c \<in> set ws2. py_int_space c) \<and>
        (sgn = [] \<or> sgn = ''+'' \<or> sgn = ''-'') \<and>
        digit_groups gs \<and>
        n = (if sgn = ''-'' then - int (dec_value (concat gs)) else int (dec_value (concat gs))))"





definition example_store :: store where
  \<comment> \<open>a store in which every reference holds the interval from 5 to 9 labelled swd\<close>
  "example_store = (\<lambda>r. \<lparr>start = PyInt 5, end' = PyInt 9, description = ''swd''\<rparr>)"

section \<open>Lemmas about the string functions\<close>

lemma digit_val_digit_char: "v < 10 \<Longrightarrow> digit_val (digit_char v) = Some v"
  by (simp add: digit_val_def digit_char_def)

lemma is_digit_digit_char: "v < 10 \<Longrightarrow> is_digit (digit_char v)"
  by (simp add: is_digit_def digit_val_digit_char)

lemma is_digit_zero: "is_digit CHR ''0''" "digit_val CHR ''0'' = Some 0"
  by (simp_all add: is_digit_def digit_val_def)

lemma is_digit_plain:
  assumes "is_digit c"
  shows "\<not> py_isspace c" "c \<noteq> CHR '':''" "c \<noteq> CHR ''_''" "c \<noteq> CHR ''-''" "c \<noteq> CHR ''+''"
    "\<not> py_int_space c"
  using assms
  by (auto simp: is_digit_def digit_val_def py_isspace_def py_int_space_def Let_def
        split: if_splits)

lemma nat_digits_all: "c \<in> set (nat_digits n) \<Longrightarrow> is_digit c"
proof (induction n arbitrary: c rule: nat_digits.induct)
  case (1 n)
  show ?case
  proof (cases "n < 10")
    case True
    then have "nat_digits n = [digit_char n]"
      by (subst nat_digits.simps) simp
    with "1.prems" True show ?thesis
      by (simp add: is_digit_digit_char)
  next
    case False
    then have "nat_digits n = nat_digits (n div 10) @ [digit_char (n mod 10)]"
      by (subst nat_digits.simps) simp
    with "1.prems" have "c \<in> set (nat_digits (n div 10)) \<or> c = digit_char (n mod 10)"
      by auto
    then show ?thesis
      using "1.IH" [OF False] by (auto simp: is_digit_digit_char)
  qed
qed

lemma nat_digits_nonempty: "nat_digits n \<noteq> []"
  by (subst nat_digits.simps) simp

lemma py_digits_snoc:
  "\<forall>c \<in> set ds. is_digit c \<Longrightarrow> v < 10 \<Longrightarrow>
   py_digits a (ds @ [digit_char v]) = map_option (\<lambda>b. 10 * b + v) (py_digits a ds)"
proof (induction ds arbitrary: a)
  case Nil
  then show ?case
    using is_digit_plain(3) [OF is_digit_digit_char, of v]
    by (simp add: digit_val_digit_char)
next
  case (Cons d ds)
  then have d: "is_digit d" by simp
  then obtain w where w: "digit_val d = Some w" by (auto simp: is_digit_def)
  from Cons show ?case
    using is_digit_plain(3) [OF d] w by simp
qed

lemma py_digits_nat_digits:
  "py_digits 0 (nat_digits n) = Some n"
proof (induction n rule: nat_digits.induct)
  case (1 n)
  show ?case
  proof (cases "n < 10")
    case True
    then show ?thesis
      using is_digit_plain(3) [OF is_digit_digit_char, of n]
      by (subst nat_digits.simps) (simp add: digit_val_digit_char)
  next
    case False
    then have "py_digits 0 (nat_digits n) =
        map_option (\<lambda>b. 10 * b + n mod 10) (py_digits 0 (nat_digits (n div 10)))"
      by (subst nat_digits.simps) (simp add: py_digits_snoc nat_digits_all)
    with False "1.IH" show ?thesis by simp
  qed
qed

lemma py_digits_zeros:
  "py_digits 0 (replicate k CHR ''0'' @ ds) = py_digits 0 ds"
  by (induction k) (simp_all add: is_digit_zero)

lemma py_number_digits:
  "ds \<noteq> [] \<Longrightarrow> is_digit (hd ds) \<Longrightarrow> py_number ds = py_digits 0 ds"
  using is_digit_plain(3) [of "hd ds"]
  by (cases ds) (auto simp: py_number_def is_digit_def)

lemma int_strip_id:
  assumes "\<forall>c \<in> set s. \<not> py_int_space c"
  shows "rev (dropWhile py_int_space (rev (dropWhile py_int_space s))) = s"
proof -
  from assms have "dropWhile py_int_space s = s"
    by (cases s) simp_all
  moreover from assms have "dropWhile py_int_space (rev s) = rev s"
    by (cases "rev s") (simp, metis dropWhile.simps(2) list.set_intros(1) set_rev)
  ultimately show ?thesis by simp
qed

lemma py_split_sep_nonempty: "py_split_sep sep s \<noteq> []"
  by (induction s) (simp_all split: list.splits)

lemma py_split_sep_plain: "sep \<notin> set a \<Longrightarrow> py_split_sep sep a = [a]"
  by (induction a) auto

lemma py_split_sep_append:
  "sep \<notin> set a \<Longrightarrow> py_split_sep sep (a @ sep # r) = a # py_split_sep sep r"
  by (induction a) auto

lemma py_split_sep_cases:
  "py_split_sep sep t = x # xs \<Longrightarrow>
   sep \<notin> set x \<and> ((xs = [] \<and> t = x) \<or> (\<exists>r. t = x @ sep # r \<and> xs = py_split_sep sep r))"
proof (induction t arbitrary: x xs)
  case Nil
  then show ?case by simp
next
  case (Cons c t)
  show ?case
  proof (cases "c = sep")
    case True
    with Cons.prems show ?thesis by auto
  next
    case False
    obtain y ys where y: "py_split_sep sep t = y # ys"
      using py_split_sep_nonempty [of sep t] by (cases "py_split_sep sep t") auto
    from Cons.prems False y have x: "x = c # y" and xs: "xs = ys" by simp_all
    from Cons.IH [OF y] x xs False show ?thesis by auto
  qed
qed

lemma py_split_sep_three:
  "py_split_sep sep t = [a, b, c] \<longleftrightarrow>
   t = a @ sep # b @ sep # c \<and> sep \<notin> set a \<and> sep \<notin> set b \<and> sep \<notin> set c"
proof
  assume l: "py_split_sep sep t = [a, b, c]"
  from py_split_sep_cases [OF l] obtain r where
    a: "sep \<notin> set a" and t: "t = a @ sep # r" and r: "py_split_sep sep r = [b, c]"
    by auto
  from py_split_sep_cases [OF r] obtain r' where
    b: "sep \<notin> set b" and r2: "r = b @ sep # r'" and r': "py_split_sep sep r' = [c]"
    by auto
  from py_split_sep_cases [OF r'] have c: "sep \<notin> set c" and "r' = c"
    by (metis py_split_sep_nonempty)+
  with a b t r2 show "t = a @ sep # b @ sep # c \<and> sep \<notin> set a \<and> sep \<notin> set b \<and> sep \<notin> set c"
    by simp
next
  assume "t = a @ sep # b @ sep # c \<and> sep \<notin> set a \<and> sep \<notin> set b \<and> sep \<notin> set c"
  then show "py_split_sep sep t = [a, b, c]"
    by (simp add: py_split_sep_append py_split_sep_plain)
qed

lemma py_number_nat_digits: "py_number (nat_digits n) = Some n"
proof -
  have "is_digit (hd (nat_digits n))"
    using nat_digits_nonempty [of n] nat_digits_all [of "hd (nat_digits n)" n] by simp
  then show ?thesis
    using nat_digits_nonempty [of n] by (simp add: py_number_digits py_digits_nat_digits)
qed

lemma py_number_padded:
  "py_number (replicate k CHR ''0'' @ nat_digits n) = Some n"
proof -
  let ?s = "replicate k CHR ''0'' @ nat_digits n"
  have ne: "?s \<noteq> []" using nat_digits_nonempty [of n] by simp
  have "\<forall>c \<in> set ?s. is_digit c"
    by (auto simp: is_digit_zero nat_digits_all)
  with ne have "is_digit (hd ?s)" using hd_in_set [OF ne] by blast
  with ne show ?thesis
    by (simp add: py_number_digits py_digits_zeros py_digits_nat_digits)
qed

lemma py_int_digits:
  assumes "\<forall>c \<in> set ds. is_digit c" "ds \<noteq> []"
  shows "py_int ds = map_option int (py_number ds)"
    and "py_int (CHR ''-'' # ds) = map_option (\<lambda>n. - int n) (py_number ds)"
proof -
  from assms have sp: "\<forall>c \<in> set ds. \<not> py_int_space c"
    using is_digit_plain(6) by blast
  have m: "\<not> py_int_space CHR ''-''" by (simp add: py_int_space_def)
  from assms have h: "hd ds \<noteq> CHR ''-''" "hd ds \<noteq> CHR ''+''"
    using is_digit_plain(4,5) [of "hd ds"] by simp_all
  have st: "rev (dropWhile py_int_space (rev (dropWhile py_int_space ds))) = ds"
    using sp by (rule int_strip_id)
  show "py_int ds = map_option int (py_number ds)"
    unfolding py_int_def st Let_def using h assms(2) by (cases ds) simp_all
  from sp m have "rev (dropWhile py_int_space (rev (dropWhile py_int_space (CHR ''-'' # ds)))) =
      CHR ''-'' # ds"
    by (intro int_strip_id) simp
  then show "py_int (CHR ''-'' # ds) = map_option (\<lambda>n. - int n) (py_number ds)"
    by (simp add: py_int_def)
qed

lemma py_int_py_format_02: "py_int (py_format_02 n) = Some n"
proof (cases "n < 0")
  case True
  then show ?thesis
    using py_int_digits(2) [of "nat_digits (nat (- n))"]
    by (simp add: py_format_02_def nat_digits_all nat_digits_nonempty py_number_nat_digits)
next
  case False
  let ?s = "replicate (2 - length (nat_digits (nat n))) CHR ''0'' @ nat_digits (nat n)"
  have "\<forall>c \<in> set ?s. is_digit c" by (auto simp: is_digit_zero nat_digits_all)
  moreover have "?s \<noteq> []" using nat_digits_nonempty by simp
  ultimately have "py_int ?s = map_option int (py_number ?s)"
    by (rule py_int_digits(1))
  with False show ?thesis
    by (simp add: py_format_02_def py_number_padded)
qed

lemma py_int_py_str: "py_int (py_str n) = Some n"
proof (cases "n < 0")
  case True
  then show ?thesis
    using py_int_digits(2) [of "nat_digits (nat (- n))"]
    by (simp add: py_str_def nat_digits_all nat_digits_nonempty py_number_nat_digits)
next
  case False
  then show ?thesis
    using py_int_digits(1) [of "nat_digits (nat n)"]
    by (simp add: py_str_def nat_digits_all nat_digits_nonempty py_number_nat_digits)
qed

lemma py_format_02_chars: "c \<in> set (py_format_02 n) \<Longrightarrow> is_digit c \<or> c = CHR ''-''"
  by (auto simp: py_format_02_def is_digit_zero nat_digits_all split: if_splits)

lemma py_format_02_no_colon: "CHR '':'' \<notin> set (py_format_02 n)"
  using py_format_02_chars [of "CHR '':''" n] is_digit_plain(2) by auto

lemma py_format_02_nonempty: "py_format_02 n \<noteq> []"
  by (simp add: py_format_02_def nat_digits_nonempty)

lemma time_to_seconds_format:
  "time_to_seconds (py_format_02 h @ CHR '':'' # py_format_02 m @ CHR '':'' # py_format_02 s) =
   Inr (h * 3600 + m * 60 + s)"
proof -
  have "py_split_sep CHR '':'' (py_format_02 h @ CHR '':'' # py_format_02 m @ CHR '':'' # py_format_02 s) =
      [py_format_02 h, py_format_02 m, py_format_02 s]"
    by (simp add: py_split_sep_three py_format_02_no_colon)
  then show ?thesis
    by (simp add: time_to_seconds_def py_int_py_format_02)
qed

lemma hms_sum: "(s::int) div 3600 * 3600 + s mod 3600 div 60 * 60 + s mod 60 = s"
proof -
  have "s mod 60 = s mod 3600 mod 60"
    by (simp add: mod_mod_cancel)
  then have "s mod 3600 div 60 * 60 + s mod 60 = s mod 3600"
    by simp
  then show ?thesis
    by (metis add.assoc div_mult_mod_eq)
qed

lemma seconds_to_time_PyInt:
  "seconds_to_time (PyInt n) =
   py_format_02 (n div 3600) @ CHR '':'' # py_format_02 (n mod 3600 div 60) @ CHR '':'' #
   py_format_02 (n mod 60)"
  by (simp add: seconds_to_time_def Let_def)




lemma time_roundtrip_all: "time_to_seconds (seconds_to_time (PyInt s)) = Inr s"
  by (simp add: seconds_to_time_PyInt time_to_seconds_format hms_sum)


lemma time_to_seconds_tokens:
  "(time_to_seconds t = Inr v \<longleftrightarrow>
     (\<exists>a b c h m s. t = a @ '':'' @ b @ '':'' @ c \<and>
        CHR '':'' \<notin> set a \<and> CHR '':'' \<notin> set b \<and> CHR '':'' \<notin> set c \<and>
        py_int a = Some h \<and> py_int b = Some m \<and> py_int c = Some s \<and>
        v = h * 3600 + m * 60 + s)) \<and>
   ((\<nexists>v. time_to_seconds t = Inr v) \<longrightarrow> time_to_seconds t = Inl ValueError)"
proof (intro conjI iffI impI)
  assume "time_to_seconds t = Inr v"
  then obtain a b c h m s where
    sp: "py_split_sep CHR '':'' t = [a, b, c]" and
    i: "py_int a = Some h" "py_int b = Some m" "py_int c = Some s" and
    v: "v = h * 3600 + m * 60 + s"
    by (auto simp: time_to_seconds_def map_eq_Cons_conv split: list.splits option.splits)
  from sp have "t = a @ '':'' @ b @ '':'' @ c \<and>
        CHR '':'' \<notin> set a \<and> CHR '':'' \<notin> set b \<and> CHR '':'' \<notin> set c"
    by (simp add: py_split_sep_three)
  with i v show "\<exists>a b c h m s. t = a @ '':'' @ b @ '':'' @ c \<and>
        CHR '':'' \<notin> set a \<and> CHR '':'' \<notin> set b \<and> CHR '':'' \<notin> set c \<and>
        py_int a = Some h \<and> py_int b = Some m \<and> py_int c = Some s \<and>
        v = h * 3600 + m * 60 + s"
    by blast
next
  assume "\<exists>a b c h m s. t = a @ '':'' @ b @ '':'' @ c \<and>
        CHR '':'' \<notin> set a \<and> CHR '':'' \<notin> set b \<and> CHR '':'' \<notin> set c \<and>
        py_int a = Some h \<and> py_int b = Some m \<and> py_int c = Some s \<and>
        v = h * 3600 + m * 60 + s"
  then obtain a b c h m s where
    t: "t = a @ '':'' @ b @ '':'' @ c"
    "CHR '':'' \<notin> set a" "CHR '':'' \<notin> set b" "CHR '':'' \<notin> set c" and
    i: "py_int a = Some h" "py_int b = Some m" "py_int c = Some s" and
    v: "v = h * 3600 + m * 60 + s"
    by blast
  from t have "py_split_sep CHR '':'' t = [a, b, c]"
    by (simp add: py_split_sep_three)
  with i v show "time_to_seconds t = Inr v"
    by (simp add: time_to_seconds_def)
next
  assume "\<nexists>v. time_to_seconds t = Inr v"
  then show "time_to_seconds t = Inl ValueError"
    by (cases "time_to_seconds t") (auto simp: time_to_seconds_def split: list.splits option.splits)
qed

section \<open>Lemmas about the loader\<close>

lemma time_to_seconds_error: "time_to_seconds t = Inl e \<Longrightarrow> e = ValueError"
  by (auto simp: time_to_seconds_def split: list.splits option.splits)

lemma length_three: "length xs = 3 \<longleftrightarrow> (\<exists>a b c. xs = [a, b, c])"
  by (cases xs; cases "tl xs"; cases "tl (tl xs)") auto

lemma read_annotations_step:
  "read_annotations (line # rest) acc =
   read_annotations rest (acc @ (case line_marker line of None \<Rightarrow> [] | Some m \<Rightarrow> [m]))"
proof (cases "length (py_split (py_strip line)) = 3")
  case False
  then have "line_marker line = None"
    by (auto simp: line_marker_def split: list.splits)
  with False show ?thesis by (simp add: Let_def)
next
  case True
  then obtain a b c where p: "py_split (py_strip line) = [a, b, c]"
    by (auto simp: length_three)
  show ?thesis
  proof (cases "time_to_seconds b")
    case (Inl e)
    then have "e = ValueError" by (rule time_to_seconds_error)
    with Inl p show ?thesis by (simp add: line_marker_def)
  next
    case (Inr onset)
    with p show ?thesis by (simp add: line_marker_def)
  qed
qed

lemma read_annotations_eq:
  "read_annotations file_lines acc =
   Inr (acc @ map (the \<circ> line_marker) (filter (\<lambda>l. line_marker l \<noteq> None) file_lines))"
proof (induction file_lines arbitrary: acc)
  case Nil
  then show ?case by simp
next
  case (Cons line rest)
  show ?case
    by (cases "line_marker line") (simp_all only: read_annotations_step Cons.IH, simp_all)
qed

lemma split_ws_tokens:
  "t \<in> set (split_ws cur s) \<Longrightarrow> t \<noteq> [] \<and> (\<forall>c \<in> set t. c \<in> set cur \<or> \<not> py_isspace c)"
proof (induction s arbitrary: cur)
  case Nil
  then show ?case by (auto split: if_splits)
next
  case (Cons c s)
  show ?case
  proof (cases "py_isspace c")
    case False
    with Cons.prems have "t \<in> set (split_ws (cur @ [c]) s)" by simp
    from Cons.IH [OF this] False show ?thesis by auto
  next
    case True
    with Cons.prems have "t = cur \<and> cur \<noteq> [] \<or> t \<in> set (split_ws [] s)"
      by (auto split: if_splits)
    then show ?thesis
    proof
      assume "t = cur \<and> cur \<noteq> []"
      then show ?thesis by simp
    next
      assume "t \<in> set (split_ws [] s)"
      from Cons.IH [OF this] show ?thesis by simp
    qed
  qed
qed

lemma py_split_tokens:
  "t \<in> set (py_split s) \<Longrightarrow> t \<noteq> [] \<and> (\<forall>c \<in> set t. \<not> py_isspace c)"
  using split_ws_tokens [of t "[]" s] by (simp add: py_split_def)

lemma line_marker_label:
  "line_marker line = Some m \<Longrightarrow> a_description m \<noteq> [] \<and> (\<forall>c \<in> set (a_description m). \<not> py_isspace c)"
proof -
  assume "line_marker line = Some m"
  then obtain a b c where "py_split (py_strip line) = [a, b, c]" and "a_description m = c"
    by (auto simp: line_marker_def split: list.splits sum.splits)
  then show ?thesis
    using py_split_tokens [of c "py_strip line"] by simp
qed

lemma pair_test_labels:
  "a_description a \<noteq> [] \<Longrightarrow> a_description b \<noteq> [] \<Longrightarrow>
   pair_test a b = Inr (labels_pair (a_description a) (a_description b))"
  by (auto simp: pair_test_def py_last_def labels_pair_def)

lemma upt_shift: "[0..<Suc n] = 0 # map Suc [0..<n]"
  by (simp add: upt_conv_Cons map_Suc_upt del: upt_Suc)

lemma map_upt_step:
  "map (\<lambda>k. g (i + 2 * k)) [0..<Suc n] = g i # map (\<lambda>k. g (i + 2 + 2 * k)) [0..<n]"
  by (simp add: upt_shift comp_def del: upt_Suc)

lemma create_intervals_eq:
  "\<forall>m \<in> set ms. a_description m \<noteq> [] \<Longrightarrow>
   create_intervals ms i acc =
   Inr (acc @ concat (map (\<lambda>k. pair_interval (ms ! (i + 2 * k)) (ms ! (i + 2 * k + 1)))
                       [0..<(length ms - i) div 2]))"
proof (induction ms i acc rule: create_intervals.induct)
  case (1 ms i acc)
  let ?g = "\<lambda>j. pair_interval (ms ! j) (ms ! (j + 1))"
  show ?case
  proof (cases "i + 1 < length ms")
    case False
    then have "(length ms - i) div 2 = 0" by simp
    with False show ?thesis
      by (subst create_intervals.simps) simp
  next
    case True
    then have lt: "int i < int (length ms) - 1" by simp
    from True have n: "(length ms - i) div 2 = Suc ((length ms - (i + 2)) div 2)"
      by simp
    have unroll: "concat (map (\<lambda>k. ?g (i + 2 * k)) [0..<(length ms - i) div 2]) =
        ?g i @ concat (map (\<lambda>k. ?g (i + 2 + 2 * k)) [0..<(length ms - (i + 2)) div 2])"
      using map_upt_step [of ?g i "(length ms - (i + 2)) div 2"]
      by (simp only: n concat.simps)
    from True "1.prems" have ne: "a_description (ms ! i) \<noteq> []" "a_description (ms ! (i + 1)) \<noteq> []"
      by simp_all
    have t: "pair_test (ms ! i) (ms ! (i + 1)) =
        Inr (labels_pair (a_description (ms ! i)) (a_description (ms ! (i + 1))))"
      using ne by (rule pair_test_labels)
    show ?thesis
    proof (cases "labels_pair (a_description (ms ! i)) (a_description (ms ! (i + 1)))")
      case yes: True
      let ?iv = "\<lparr>start = PyInt (time (ms ! i)), end' = PyInt (time (ms ! (i + 1))),
                     description = butlast (a_description (ms ! i))\<rparr>"
      have g: "?g i = [?iv]" using yes by (simp add: pair_interval_def)
      have "create_intervals ms i acc = create_intervals ms (i + 2) (acc @ [?iv])"
        using True lt t yes by (subst create_intervals.simps) simp
      also have "\<dots> = Inr ((acc @ [?iv]) @
           concat (map (\<lambda>k. ?g (i + 2 + 2 * k)) [0..<(length ms - (i + 2)) div 2]))"
        using "1.IH"(1) [OF lt True t _ "1.prems"] yes by simp
      finally show ?thesis
        unfolding unroll g by simp
    next
      case no: False
      have g: "?g i = []" using no by (simp add: pair_interval_def)
      have "create_intervals ms i acc = create_intervals ms (i + 2) acc"
        using True lt t no by (subst create_intervals.simps) simp
      also have "\<dots> = Inr (acc @
           concat (map (\<lambda>k. ?g (i + 2 + 2 * k)) [0..<(length ms - (i + 2)) div 2]))"
        using "1.IH"(2) [OF lt True t _ "1.prems"] no by simp
      finally show ?thesis
        unfolding unroll g by simp
    qed
  qed
qed

lemma create_intervals_spec:
  "\<forall>m \<in> set ms. a_description m \<noteq> [] \<Longrightarrow> create_intervals ms 0 [] = Inr (pairing_spec ms)"
  by (simp add: create_intervals_eq pairing_spec_def)

lemma create_intervals_last:
  "even i \<Longrightarrow> even (length ms) \<Longrightarrow>
   create_intervals (ms @ [m]) i acc = create_intervals ms i acc"
proof (induction ms i acc rule: create_intervals.induct)
  case (1 ms i acc)
  show ?case
  proof (cases "i + 1 < length ms")
    case True
    then have lt: "int i < int (length ms) - 1" by simp
    have nth: "(ms @ [m]) ! i = ms ! i" "(ms @ [m]) ! (i + 1) = ms ! (i + 1)"
      using True by (simp_all add: nth_append)
    have ev: "even (i + 2)" using "1.prems"(1) by simp
    show ?thesis
    proof (cases "pair_test (ms ! i) (ms ! (i + 1))")
      case (Inl e)
      then show ?thesis
        using True lt nth
        by (subst create_intervals.simps, subst (2) create_intervals.simps) simp
    next
      case (Inr b)
      show ?thesis
      proof (cases b)
        case yes: True
        from "1.IH"(1) [OF lt True _ _ ev "1.prems"(2)] Inr yes
        show ?thesis
          using True lt nth
          by (subst create_intervals.simps, subst (2) create_intervals.simps) simp
      next
        case no: False
        from "1.IH"(2) [OF lt True _ _ ev "1.prems"(2)] Inr no
        show ?thesis
          using True lt nth
          by (subst create_intervals.simps, subst (2) create_intervals.simps) simp
      qed
    qed
  next
    case False
    with "1.prems" have "length ms \<le> i"
      by (metis Suc_eq_plus1 even_Suc not_less_eq not_less_iff_gr_or_eq not_less)
    then show ?thesis
      by (subst create_intervals.simps, subst (2) create_intervals.simps) simp
  qed
qed

lemma create_intervals_ordered:
  "create_intervals ms i acc = Inr ivs \<Longrightarrow> even i \<Longrightarrow>
   \<forall>k. 2 * k + 1 < length ms \<longrightarrow> pair_test (ms ! (2 * k)) (ms ! (2 * k + 1)) = Inr True \<longrightarrow>
       time (ms ! (2 * k)) \<le> time (ms ! (2 * k + 1)) \<Longrightarrow>
   \<forall>iv \<in> set acc. num_val (start iv) \<le> num_val (end' iv) \<Longrightarrow>
   \<forall>iv \<in> set ivs. num_val (start iv) \<le> num_val (end' iv)"
proof (induction ms i acc rule: create_intervals.induct)
  case (1 ms i acc)
  show ?case
  proof (cases "i + 1 < length ms")
    case False
    with "1.prems"(1) have "ivs = acc"
      by (subst (asm) create_intervals.simps) simp
    with "1.prems"(4) show ?thesis by simp
  next
    case True
    then have lt: "int i < int (length ms) - 1" by simp
    have ev: "even (i + 2)" using "1.prems"(2) by simp
    from "1.prems"(2) obtain k where k: "i = 2 * k" by (auto elim: evenE)
    show ?thesis
    proof (cases "pair_test (ms ! i) (ms ! (i + 1))")
      case (Inl e)
      with "1.prems"(1) True lt show ?thesis
        by (subst (asm) create_intervals.simps) simp
    next
      case (Inr b)
      show ?thesis
      proof (cases b)
        case yes: True
        let ?iv = "\<lparr>start = PyInt (time (ms ! i)), end' = PyInt (time (ms ! (i + 1))),
                     description = butlast (a_description (ms ! i))\<rparr>"
        from k True Inr yes "1.prems"(3) have le: "time (ms ! i) \<le> time (ms ! (i + 1))"
          by simp
        from "1.prems"(1) True lt Inr yes
        have "create_intervals ms (i + 2) (acc @ [?iv]) = Inr ivs"
          by (subst (asm) create_intervals.simps) simp
        moreover have "\<forall>iv \<in> set (acc @ [?iv]). num_val (start iv) \<le> num_val (end' iv)"
          using "1.prems"(4) le by simp
        ultimately show ?thesis
          using "1.IH"(1) [OF lt True _ _ _ ev "1.prems"(3)] Inr yes by simp
      next
        case no: False
        from "1.prems"(1) True lt Inr no
        have "create_intervals ms (i + 2) acc = Inr ivs"
          by (subst (asm) create_intervals.simps) simp
        then show ?thesis
          using "1.IH"(2) [OF lt True _ _ _ ev "1.prems"(3,4)] Inr no by simp
      qed
    qed
  qed
qed

section \<open>Lemmas about the written file\<close>

























section \<open>Lemmas about the interval store\<close>

lemma py_str_no_colon: "CHR '':'' \<notin> set (py_str n)"
  using is_digit_plain(2) [of "CHR '':''"] nat_digits_all [of "CHR '':''"]
  by (auto simp: py_str_def split: if_splits)

lemma choice_text_position:
  "py_int (hd (py_split_sep CHR '':'' (choice_text k iv))) = Some (int k + 1)"
proof -
  have "choice_text k iv = py_str (int k + 1) @ CHR '':'' #
      ('' '' @ seconds_to_time (start iv) @ '' - '' @ seconds_to_time (end' iv) @
       '' ('' @ description iv @ '')'')"
    by (simp add: choice_text_def)
  then have "hd (py_split_sep CHR '':'' (choice_text k iv)) = py_str (int k + 1)"
    by (simp only: py_split_sep_append [OF py_str_no_colon] list.sel)
  then show ?thesis by (simp add: py_int_py_str)
qed

lemma length_interval_choices: "length (interval_choices ivs) = length ivs"
  by (simp add: interval_choices_def)

lemma nth_interval_choices:
  "k < length ivs \<Longrightarrow> interval_choices ivs ! k = choice_text k (ivs ! k)"
  by (simp add: interval_choices_def nth_enumerate_eq)

lemma py_index_valid:
  "1 \<le> p \<Longrightarrow> p \<le> int n \<Longrightarrow> py_index n (p - 1) = Inr (nat (p - 1))"
  by (simp add: py_index_def)

lemma py_index_outside:
  "int n \<le> i \<or> i < - int n \<Longrightarrow> py_index n i = Inl IndexError"
  by (auto simp: py_index_def)

lemma delete_at_length: "j < length xs \<Longrightarrow> length (take j xs @ drop (j + 1) xs) + 1 = length xs"
  by simp

lemma delete_markup_valid:
  assumes "py_int (hd (py_split_sep CHR '':'' selected_interval)) = Some p"
    and "1 \<le> p" and "p \<le> int (length (existing_intervals @ markup_intervals))"
  shows "delete_markup selected_interval existing_intervals markup_intervals =
           Inr (take (nat p - 1) (existing_intervals @ markup_intervals) @
                  drop (nat p) (existing_intervals @ markup_intervals),
                interval_choices
                  (take (nat p - 1) (existing_intervals @ markup_intervals) @
                   drop (nat p) (existing_intervals @ markup_intervals)))"
proof -
  define xs where "xs = existing_intervals @ markup_intervals"
  have i: "py_index (length xs) (p - 1) = Inr (nat (p - 1))"
    using assms(2,3) unfolding xs_def by (rule py_index_valid)
  have j: "nat (p - 1) = nat p - 1" "Suc (nat p - 1) = nat p"
    using assms(2) by simp_all
  have "delete_markup selected_interval existing_intervals markup_intervals =
      Inr (take (nat (p - 1)) xs @ drop (nat (p - 1) + 1) xs,
           interval_choices (take (nat (p - 1)) xs @ drop (nat (p - 1) + 1) xs))"
    unfolding delete_markup_def selected_index_def Let_def xs_def [symmetric]
    by (simp only: assms(1) option.case sum.case i)
  then show ?thesis
    unfolding xs_def [symmetric] by (simp only: j Suc_eq_plus1 [symmetric])
qed

lemma interval_choices_numbered:
  "k < length (interval_choices ivs) \<Longrightarrow>
   py_int (hd (py_split_sep CHR '':'' (interval_choices ivs ! k))) = Some (int k + 1)"
  by (simp only: length_interval_choices nth_interval_choices choice_text_position)

lemma edit_markup_valid:
  assumes "py_int (hd (py_split_sep CHR '':'' selected_interval)) = Some p"
    and "1 \<le> p" and "p \<le> int (length (existing_intervals @ markup_intervals))"
  shows "edit_markup st selected_interval start_time end_time label
           existing_intervals markup_intervals =
         Inr (st((existing_intervals @ markup_intervals) ! (nat p - 1) :=
                   \<lparr>start = start_time, end' = end_time, description = label\<rparr>),
              existing_intervals @ markup_intervals,
              interval_choices
                (map (st((existing_intervals @ markup_intervals) ! (nat p - 1) :=
                        \<lparr>start = start_time, end' = end_time, description = label\<rparr>))
                   (existing_intervals @ markup_intervals)))"
proof -
  define xs where "xs = existing_intervals @ markup_intervals"
  define r where "r = xs ! (nat p - 1)"
  have i: "py_index (length xs) (p - 1) = Inr (nat (p - 1))"
    using assms(2,3) unfolding xs_def by (rule py_index_valid)
  have j: "nat (p - 1) = nat p - 1"
    using assms(2) by simp
  have u: "st(r := (st r)\<lparr>start := start_time\<rparr>,
              r := ((st(r := (st r)\<lparr>start := start_time\<rparr>)) r)\<lparr>end' := end_time\<rparr>,
              r := ((st(r := (st r)\<lparr>start := start_time\<rparr>,
                        r := ((st(r := (st r)\<lparr>start := start_time\<rparr>)) r)\<lparr>end' := end_time\<rparr>)) r)
                     \<lparr>description := label\<rparr>) =
           st(r := \<lparr>start = start_time, end' = end_time, description = label\<rparr>)"
    by (cases "st r") simp
  show ?thesis
    unfolding edit_markup_def selected_index_def Let_def xs_def [symmetric]
    by (simp only: assms(1) option.case sum.case i j r_def [symmetric] u)
qed

section \<open>The numerals that int accepts\<close>

lemma py_digits_step:
  "is_digit c \<Longrightarrow> py_digits a (c # r) = py_digits (dec_step a c) r"
  using is_digit_plain(3) [of c] by (auto simp: is_digit_def dec_step_def)

lemma py_digits_fold:
  "\<forall>c \<in> set ds. is_digit c \<Longrightarrow> py_digits a (ds @ r) = py_digits (foldl dec_step a ds) r"
proof (induction ds arbitrary: a)
  case Nil
  show ?case by simp
next
  case (Cons d ds)
  then have "py_digits a ((d # ds) @ r) = py_digits (dec_step a d) (ds @ r)"
    by (simp only: append_Cons py_digits_step list.set_intros)
  with Cons show ?case by simp
qed

lemma py_digits_underscore:
  "is_digit d \<Longrightarrow> py_digits a (CHR ''_'' # d # r) = py_digits (dec_step a d) r"
  by (auto simp: is_digit_def dec_step_def)

lemma py_digits_groups:
  "\<forall>g \<in> set gs. g \<noteq> [] \<and> (\<forall>c \<in> set g. is_digit c) \<Longrightarrow>
   py_digits a (concat (map ((#) CHR ''_'') gs) @ r) = py_digits (foldl dec_step a (concat gs)) r"
proof (induction gs arbitrary: a)
  case Nil
  show ?case by simp
next
  case (Cons g gs)
  then obtain d g' where g: "g = d # g'" by (cases g) auto
  with Cons.prems have d: "is_digit d" and g': "\<forall>c \<in> set g'. is_digit c" by simp_all
  have "py_digits a (concat (map ((#) CHR ''_'') (g # gs)) @ r) =
      py_digits a (CHR ''_'' # d # (g' @ concat (map ((#) CHR ''_'') gs) @ r))"
    by (simp add: g)
  also have "\<dots> = py_digits (dec_step a d) (g' @ concat (map ((#) CHR ''_'') gs) @ r)"
    using d by (rule py_digits_underscore)
  also have "\<dots> = py_digits (foldl dec_step (dec_step a d) g') (concat (map ((#) CHR ''_'') gs) @ r)"
    using g' by (rule py_digits_fold)
  also have "\<dots> = py_digits (foldl dec_step (foldl dec_step (dec_step a d) g') (concat gs)) r"
    using Cons.prems by (intro Cons.IH) simp
  finally show ?case by (simp add: g)
qed

lemma py_number_groups:
  assumes "digit_groups gs"
  shows "py_number (join_underscore gs) = Some (dec_value (concat gs))"
proof -
  from assms obtain g gs' where gs: "gs = g # gs'" by (cases gs) (auto simp: digit_groups_def)
  with assms obtain d g' where g: "g = d # g'" by (cases g) (auto simp: digit_groups_def)
  from assms gs g have d: "is_digit d" and g': "\<forall>c \<in> set g'. is_digit c"
    and r: "\<forall>g \<in> set gs'. g \<noteq> [] \<and> (\<forall>c \<in> set g. is_digit c)"
    by (simp_all add: digit_groups_def)
  from d obtain v where v: "digit_val d = Some v" by (auto simp: is_digit_def)
  then have s0: "dec_step 0 d = v" by (simp add: dec_step_def)
  have "py_number (join_underscore gs) =
      py_digits v (g' @ concat (map ((#) CHR ''_'') gs') @ [])"
    by (simp add: join_underscore_def gs g py_number_def v)
  also have "\<dots> = py_digits (foldl dec_step v g') (concat (map ((#) CHR ''_'') gs') @ [])"
    using g' by (rule py_digits_fold)
  also have "\<dots> = py_digits (foldl dec_step (foldl dec_step v g') (concat gs')) []"
    using r by (rule py_digits_groups)
  finally show ?thesis
    by (simp add: dec_value_def gs g s0)
qed

lemma py_digits_shape:
  "py_digits a cs = Some n \<Longrightarrow>
   \<exists>d gs. cs = d @ concat (map ((#) CHR ''_'') gs) \<and> (\<forall>c \<in> set d. is_digit c) \<and>
     (\<forall>g \<in> set gs. g \<noteq> [] \<and> (\<forall>c \<in> set g. is_digit c)) \<and>
     n = foldl dec_step a (d @ concat gs)"
proof (induction cs arbitrary: a rule: length_induct)
  case (1 cs)
  show ?case
  proof (cases cs)
    case Nil
    with "1.prems" have "n = a" by simp
    with Nil show ?thesis
      by (intro exI [of _ "[]"]) simp
  next
    case (Cons c r)
    show ?thesis
    proof (cases "c = CHR ''_''")
      case True
      with "1.prems" Cons obtain x r' where r: "r = x # r'" and x: "is_digit x"
        and p: "py_digits (dec_step a x) r' = Some n"
        by (auto simp: is_digit_def dec_step_def split: list.splits option.splits)
      have "length r' < length cs" using Cons r by simp
      with "1.IH" p obtain d gs where
        s: "r' = d @ concat (map ((#) CHR ''_'') gs)" and d: "\<forall>c \<in> set d. is_digit c" and
        gs: "\<forall>g \<in> set gs. g \<noteq> [] \<and> (\<forall>c \<in> set g. is_digit c)" and
        n: "n = foldl dec_step (dec_step a x) (d @ concat gs)"
        by blast
      have "cs = [] @ concat (map ((#) CHR ''_'') ((x # d) # gs))"
        using Cons True r s by simp
      moreover have "\<forall>g \<in> set ((x # d) # gs). g \<noteq> [] \<and> (\<forall>c \<in> set g. is_digit c)"
        using x d gs by simp
      moreover have "n = foldl dec_step a ([] @ concat ((x # d) # gs))"
        using n by simp
      ultimately show ?thesis
        by (intro exI [of _ "[]"] exI [of _ "(x # d) # gs"]) simp
    next
      case False
      with "1.prems" Cons have c: "is_digit c" and p: "py_digits (dec_step a c) r = Some n"
        by (auto simp: is_digit_def dec_step_def split: option.splits)
      have "length r < length cs" using Cons by simp
      with "1.IH" p obtain d gs where
        s: "r = d @ concat (map ((#) CHR ''_'') gs)" and d: "\<forall>c \<in> set d. is_digit c" and
        gs: "\<forall>g \<in> set gs. g \<noteq> [] \<and> (\<forall>c \<in> set g. is_digit c)" and
        n: "n = foldl dec_step (dec_step a c) (d @ concat gs)"
        by blast
      have "cs = (c # d) @ concat (map ((#) CHR ''_'') gs)"
        using Cons s by simp
      moreover have "\<forall>x \<in> set (c # d). is_digit x" using c d by simp
      moreover have "n = foldl dec_step a ((c # d) @ concat gs)" using n by simp
      ultimately show ?thesis
        using gs by (intro exI [of _ "c # d"] exI [of _ gs]) simp
    qed
  qed
qed

lemma py_number_shape:
  assumes "py_number s = Some n"
  shows "\<exists>gs. digit_groups gs \<and> s = join_underscore gs \<and> n = dec_value (concat gs)"
proof -
  from assms obtain c r v where s: "s = c # r" and v: "digit_val c = Some v"
    and p: "py_digits v r = Some n"
    by (auto simp: py_number_def split: list.splits option.splits)
  from v have c: "is_digit c" and s0: "dec_step 0 c = v"
    by (simp_all add: is_digit_def dec_step_def)
  from py_digits_shape [OF p] obtain d gs where
    r: "r = d @ concat (map ((#) CHR ''_'') gs)" and d: "\<forall>c \<in> set d. is_digit c" and
    gs: "\<forall>g \<in> set gs. g \<noteq> [] \<and> (\<forall>c \<in> set g. is_digit c)" and
    n: "n = foldl dec_step v (d @ concat gs)"
    by blast
  have "digit_groups ((c # d) # gs)"
    using c d gs by (simp add: digit_groups_def)
  moreover have "s = join_underscore ((c # d) # gs)"
    using s r by (simp add: join_underscore_def)
  moreover have "n = dec_value (concat ((c # d) # gs))"
    using n s0 by (simp add: dec_value_def)
  ultimately show ?thesis by blast
qed

lemma int_strip_parts:
  "\<exists>ws1 ws2. s = ws1 @ rev (dropWhile py_int_space (rev (dropWhile py_int_space s))) @ ws2 \<and>
     (\<forall>c \<in> set ws1. py_int_space c) \<and> (\<forall>c \<in> set ws2. py_int_space c)"
proof -
  let ?t = "dropWhile py_int_space s"
  have a: "s = takeWhile py_int_space s @ ?t" by simp
  have b: "?t = rev (dropWhile py_int_space (rev ?t)) @ rev (takeWhile py_int_space (rev ?t))"
    by (metis rev_append rev_rev_ident takeWhile_dropWhile_id)
  have "s = takeWhile py_int_space s @ rev (dropWhile py_int_space (rev ?t)) @
      rev (takeWhile py_int_space (rev ?t))"
    using a b by metis
  moreover have "\<forall>c \<in> set (takeWhile py_int_space s). py_int_space c"
    by (auto dest: set_takeWhileD)
  moreover have "\<forall>c \<in> set (rev (takeWhile py_int_space (rev ?t))). py_int_space c"
    by (auto dest: set_takeWhileD)
  ultimately show ?thesis by blast
qed

lemma int_strip_core:
  assumes "m \<noteq> []" "\<not> py_int_space (hd m)" "\<not> py_int_space (last m)"
    and "\<forall>c \<in> set ws1. py_int_space c" "\<forall>c \<in> set ws2. py_int_space c"
  shows "rev (dropWhile py_int_space (rev (dropWhile py_int_space (ws1 @ m @ ws2)))) = m"
proof -
  from assms(1,2) have "dropWhile py_int_space (m @ ws2) = m @ ws2"
    by (cases m) simp_all
  with assms(4) have a: "dropWhile py_int_space (ws1 @ m @ ws2) = m @ ws2"
    by (simp add: dropWhile_append2)
  from assms(1,3) have "dropWhile py_int_space (rev m) = rev m"
    by (cases "rev m") (simp_all add: last_rev [symmetric] hd_rev del: last_rev)
  moreover have "dropWhile py_int_space (rev ws2 @ rev m) = dropWhile py_int_space (rev m)"
    using assms(5) by (intro dropWhile_append2) simp
  ultimately have "dropWhile py_int_space (rev (m @ ws2)) = rev m"
    by (simp only: rev_append)
  then show ?thesis by (simp only: a rev_rev_ident)
qed

lemma join_underscore_ends:
  assumes "digit_groups gs"
  shows "join_underscore gs \<noteq> []" "is_digit (hd (join_underscore gs))"
    "is_digit (last (join_underscore gs))"
proof -
  from assms obtain g gs' where gs: "gs = g # gs'" by (cases gs) (auto simp: digit_groups_def)
  from assms gs have g: "g \<noteq> []" "\<forall>c \<in> set g. is_digit c"
    by (simp_all add: digit_groups_def)
  show "join_underscore gs \<noteq> []" using g gs by (simp add: join_underscore_def)
  show "is_digit (hd (join_underscore gs))"
    using g gs by (simp add: join_underscore_def hd_append)
  show "is_digit (last (join_underscore gs))"
  proof (cases gs' rule: rev_cases)
    case Nil
    with g gs show ?thesis by (simp add: join_underscore_def)
  next
    case (snoc gs'' h)
    with assms gs have h: "h \<noteq> []" "\<forall>c \<in> set h. is_digit c"
      by (simp_all add: digit_groups_def)
    have "join_underscore gs = (g @ concat (map ((#) CHR ''_'') gs'') @ [CHR ''_'']) @ h"
      using gs snoc by (simp add: join_underscore_def)
    then have "last (join_underscore gs) = last h"
      using h(1) by (simp only: last_append if_False)
    with h show ?thesis by simp
  qed
qed

lemma py_int_of_text:
  assumes "int_text s n"
  shows "py_int s = Some n"
proof -
  from assms obtain ws1 sgn gs ws2 where
    s: "s = ws1 @ sgn @ join_underscore gs @ ws2" and
    w: "\<forall>c \<in> set ws1. py_int_space c" "\<forall>c \<in> set ws2. py_int_space c" and
    sg: "sgn = [] \<or> sgn = ''+'' \<or> sgn = ''-''" and g: "digit_groups gs" and
    n: "n = (if sgn = ''-'' then - int (dec_value (concat gs)) else int (dec_value (concat gs)))"
    unfolding int_text_def by blast
  let ?b = "join_underscore gs"
  note e = join_underscore_ends [OF g]
  have sp: "\<not> py_int_space CHR ''+''" "\<not> py_int_space CHR ''-''"
    by (simp_all add: py_int_space_def)
  have m: "sgn @ ?b \<noteq> []" "\<not> py_int_space (hd (sgn @ ?b))" "\<not> py_int_space (last (sgn @ ?b))"
    using sg e sp is_digit_plain(6) by (auto simp: hd_append)
  have st: "rev (dropWhile py_int_space (rev (dropWhile py_int_space s))) = sgn @ ?b"
    using int_strip_core [OF m w] s by simp
  obtain c r where b: "?b = c # r" using e(1) by (cases ?b) auto
  with e(2) have c: "c \<noteq> CHR ''-''" "c \<noteq> CHR ''+''"
    using is_digit_plain(4,5) [of c] by simp_all
  have num: "py_number ?b = Some (dec_value (concat gs))"
    using g by (rule py_number_groups)
  from sg show ?thesis
  proof (elim disjE)
    assume "sgn = []"
    with st b c num n show ?thesis by (simp add: py_int_def)
  next
    assume "sgn = ''+''"
    with st num n show ?thesis by (simp add: py_int_def)
  next
    assume "sgn = ''-''"
    with st num n show ?thesis by (simp add: py_int_def)
  qed
qed

lemma int_text_of_py_int:
  assumes "py_int s = Some n"
  shows "int_text s n"
proof -
  let ?t = "rev (dropWhile py_int_space (rev (dropWhile py_int_space s)))"
  from int_strip_parts [of s] obtain ws1 ws2 where
    s: "s = ws1 @ ?t @ ws2" and
    w: "\<forall>c \<in> set ws1. py_int_space c" "\<forall>c \<in> set ws2. py_int_space c"
    by blast
  from assms obtain c r where t: "?t = c # r"
    by (cases ?t) (auto simp: py_int_def)
  consider (minus) "c = CHR ''-''" | (plus) "c \<noteq> CHR ''-''" "c = CHR ''+''"
    | (none) "c \<noteq> CHR ''-''" "c \<noteq> CHR ''+''"
    by blast
  then show ?thesis
  proof cases
    case minus
    with assms t obtain k where k: "py_number r = Some k" and n: "n = - int k"
      by (auto simp: py_int_def)
    from py_number_shape [OF k] obtain gs where
      g: "digit_groups gs" "r = join_underscore gs" "k = dec_value (concat gs)"
      by blast
    have "s = ws1 @ ''-'' @ join_underscore gs @ ws2"
      using s t minus g(2) by simp
    with w g n show ?thesis
      unfolding int_text_def
      by (intro exI [of _ ws1] exI [of _ "''-''"] exI [of _ gs] exI [of _ ws2]) simp
  next
    case plus
    with assms t obtain k where k: "py_number r = Some k" and n: "n = int k"
      by (auto simp: py_int_def)
    from py_number_shape [OF k] obtain gs where
      g: "digit_groups gs" "r = join_underscore gs" "k = dec_value (concat gs)"
      by blast
    have "s = ws1 @ ''+'' @ join_underscore gs @ ws2"
      using s t plus g(2) by simp
    with w g n show ?thesis
      unfolding int_text_def
      by (intro exI [of _ ws1] exI [of _ "''+''"] exI [of _ gs] exI [of _ ws2]) simp
  next
    case none
    with assms t obtain k where k: "py_number (c # r) = Some k" and n: "n = int k"
      by (auto simp: py_int_def)
    from py_number_shape [OF k] obtain gs where
      g: "digit_groups gs" "c # r = join_underscore gs" "k = dec_value (concat gs)"
      by blast
    have "s = ws1 @ [] @ join_underscore gs @ ws2"
      using s t g(2) by simp
    with w g n show ?thesis
      unfolding int_text_def
      by (intro exI [of _ ws1] exI [of _ "[]"] exI [of _ gs] exI [of _ ws2]) simp
  qed
qed

lemma py_int_iff: "py_int s = Some n \<longleftrightarrow> int_text s n"
  using py_int_of_text int_text_of_py_int by blast

lemma py_int_separators:
  "py_int (''3'' @ [CHR 0x1F]) = None \<and> py_int ([CHR 0x1C] @ ''7'') = None \<and>
   py_strip (''3'' @ [CHR 0x1F]) = ''3'' \<and> py_int ([CHR 0xA0] @ ''7 '') = Some 7"
  by code_simp

section \<open>The claims\<close>

text \<open>
  Claim C1. The loader pairs the filtered markers two at a time at even positions. The
  filtered markers have non-empty labels (\<open>line_marker_label\<close>), and on every such list
  \<open>create_intervals\<close> returns \<open>pairing_spec\<close>: for each \<open>k\<close> the pair at the positions
  \<open>2 * k\<close> and \<open>2 * k + 1\<close> gives the interval from the time of the first marker to the
  time of the second, labelled with the shared base label, exactly when the two labels agree
  on all characters except the last, the first ends in 1 and the second ends in 2; any other
  pair gives nothing. The markers (5, swd1), (9, swd2) give the one interval from 5 to 9
  labelled swd, and the markers (5, swd1), (9, ds2) give none.
\<close>

theorem pairing_rule:
  assumes "\<forall>m \<in> set ms. a_description m \<noteq> []"
  shows "create_intervals ms 0 [] = Inr (pairing_spec ms) \<and>
         create_intervals [\<lparr>time = 5, a_description = ''swd1''\<rparr>,
                           \<lparr>time = 9, a_description = ''swd2''\<rparr>] 0 [] =
           Inr [\<lparr>start = PyInt 5, end' = PyInt 9, description = ''swd''\<rparr>] \<and>
         create_intervals [\<lparr>time = 5, a_description = ''swd1''\<rparr>,
                           \<lparr>time = 9, a_description = ''ds2''\<rparr>] 0 [] = Inr []"
proof (intro conjI)
  show "create_intervals ms 0 [] = Inr (pairing_spec ms)"
    using assms by (rule create_intervals_spec)
  show "create_intervals [\<lparr>time = 5, a_description = ''swd1''\<rparr>,
                           \<lparr>time = 9, a_description = ''swd2''\<rparr>] 0 [] =
           Inr [\<lparr>start = PyInt 5, end' = PyInt 9, description = ''swd''\<rparr>]"
    by code_simp
  show "create_intervals [\<lparr>time = 5, a_description = ''swd1''\<rparr>,
                           \<lparr>time = 9, a_description = ''ds2''\<rparr>] 0 [] = Inr []"
    by code_simp
qed

theorem pairing_rule_witness:
  "create_intervals
     [\<lparr>time = 5, a_description = ''swd1''\<rparr>, \<lparr>time = 9, a_description = ''swd2''\<rparr>,
      \<lparr>time = 12, a_description = ''is1''\<rparr>, \<lparr>time = 20, a_description = ''ds2''\<rparr>,
      \<lparr>time = 30, a_description = ''1''\<rparr>, \<lparr>time = 41, a_description = ''2''\<rparr>] 0 [] =
   Inr [\<lparr>start = PyInt 5, end' = PyInt 9, description = ''swd''\<rparr>,
        \<lparr>start = PyInt 30, end' = PyInt 41, description = ''''\<rparr>]"
proof -
  let ?ms = "[\<lparr>time = 5, a_description = ''swd1''\<rparr>, \<lparr>time = 9, a_description = ''swd2''\<rparr>,
      \<lparr>time = 12, a_description = ''is1''\<rparr>, \<lparr>time = 20, a_description = ''ds2''\<rparr>,
      \<lparr>time = 30, a_description = ''1''\<rparr>, \<lparr>time = 41, a_description = ''2''\<rparr>]"
  have h: "\<forall>m \<in> set ?ms. a_description m \<noteq> []" by simp
  have s: "pairing_spec ?ms = [\<lparr>start = PyInt 5, end' = PyInt 9, description = ''swd''\<rparr>,
        \<lparr>start = PyInt 30, end' = PyInt 41, description = ''''\<rparr>]"
    by code_simp
  from pairing_rule [OF h] s show ?thesis by simp
qed

text \<open>
  Claim C2. For every non-negative integer \<open>s\<close>, \<open>time_to_seconds\<close> applied to the text
  that \<open>seconds_to_time\<close> prints for the integer \<open>s\<close> succeeds and returns \<open>s\<close>.
\<close>

theorem time_roundtrip: "0 \<le> s \<Longrightarrow> time_to_seconds (seconds_to_time (PyInt s)) = Inr s"
  by (rule time_roundtrip_all)

theorem time_roundtrip_witness:
  "(0::int) \<le> 3725 \<and> time_to_seconds (seconds_to_time (PyInt 3725)) = Inr 3725"
  using time_roundtrip [of 3725] by simp




text \<open>
  Claim C4. Not every interval has its start before its end. The pairing copies the two
  marker times and \<open>add_markup\<close> copies its two arguments, and neither compares them: the
  markers (9, swd1), (5, swd2) give an interval from 9 to 5, and so does \<open>add_markup\<close>
  called with 9 and 5.
\<close>

theorem interval_order_counterexample:
  "create_intervals [\<lparr>time = 9, a_description = ''swd1''\<rparr>,
                     \<lparr>time = 5, a_description = ''swd2''\<rparr>] 0 [] =
     Inr [\<lparr>start = PyInt 9, end' = PyInt 5, description = ''swd''\<rparr>] \<and>
   add_markup (PyInt 9) (PyInt 5) ''swd'' [] =
     [\<lparr>start = PyInt 9, end' = PyInt 5, description = ''swd''\<rparr>] \<and>
   \<not> num_val (start \<lparr>start = PyInt 9, end' = PyInt 5, description = ''swd''\<rparr>)
       \<le> num_val (end' \<lparr>start = PyInt 9, end' = PyInt 5, description = ''swd''\<rparr>)"
proof -
  have "create_intervals [\<lparr>time = 9, a_description = ''swd1''\<rparr>,
                     \<lparr>time = 5, a_description = ''swd2''\<rparr>] 0 [] =
     Inr [\<lparr>start = PyInt 9, end' = PyInt 5, description = ''swd''\<rparr>]"
    by code_simp
  then show ?thesis by (simp add: add_markup_def)
qed

text \<open>
  Claim C4, amended. When in every pair of markers at the positions \<open>2 * k\<close> and
  \<open>2 * k + 1\<close> that matches the pairing pattern the first time is at most the second,
  every interval that the pairing emits has its start at most its end; and when
  \<open>add_markup\<close> is called with a start at most the end on a list whose intervals all have
  that property, all intervals of the list it returns have it.
\<close>

theorem interval_order_preserved:
  assumes "\<forall>k. 2 * k + 1 < length ms \<longrightarrow>
             pair_test (ms ! (2 * k)) (ms ! (2 * k + 1)) = Inr True \<longrightarrow>
             time (ms ! (2 * k)) \<le> time (ms ! (2 * k + 1))"
    and "num_val start_time \<le> num_val end_time"
    and "\<forall>iv \<in> set markup_intervals. num_val (start iv) \<le> num_val (end' iv)"
  shows "(\<forall>ivs. create_intervals ms 0 [] = Inr ivs \<longrightarrow>
            (\<forall>iv \<in> set ivs. num_val (start iv) \<le> num_val (end' iv))) \<and>
         (\<forall>iv \<in> set (add_markup start_time end_time label markup_intervals).
            num_val (start iv) \<le> num_val (end' iv))"
proof (intro conjI allI impI)
  fix ivs
  assume "create_intervals ms 0 [] = Inr ivs"
  then show "\<forall>iv \<in> set ivs. num_val (start iv) \<le> num_val (end' iv)"
    using create_intervals_ordered [of ms 0 "[]" ivs] assms(1) by simp
next
  show "\<forall>iv \<in> set (add_markup start_time end_time label markup_intervals).
      num_val (start iv) \<le> num_val (end' iv)"
    using assms(2,3) by (simp add: add_markup_def)
qed

theorem interval_order_preserved_witness:
  "create_intervals [\<lparr>time = 9, a_description = ''x1''\<rparr>, \<lparr>time = 5, a_description = ''y2''\<rparr>,
                     \<lparr>time = 1, a_description = ''swd1''\<rparr>,
                     \<lparr>time = 2, a_description = ''swd2''\<rparr>] 0 [] =
     Inr [\<lparr>start = PyInt 1, end' = PyInt 2, description = ''swd''\<rparr>] \<and>
   num_val (start \<lparr>start = PyInt 1, end' = PyInt 2, description = ''swd''\<rparr>)
     \<le> num_val (end' \<lparr>start = PyInt 1, end' = PyInt 2, description = ''swd''\<rparr>) \<and>
   add_markup (PyFloat (11 / 2)) (PyInt 20) ''is''
       [\<lparr>start = PyInt 1, end' = PyInt 2, description = ''swd''\<rparr>] =
     [\<lparr>start = PyInt 1, end' = PyInt 2, description = ''swd''\<rparr>,
      \<lparr>start = PyFloat (11 / 2), end' = PyInt 20, description = ''is''\<rparr>] \<and>
   num_val (start \<lparr>start = PyFloat (11 / 2), end' = PyInt 20, description = ''is''\<rparr>)
     \<le> num_val (end' \<lparr>start = PyFloat (11 / 2), end' = PyInt 20, description = ''is''\<rparr>)"
proof -
  let ?ms = "[\<lparr>time = 9, a_description = ''x1''\<rparr>, \<lparr>time = 5, a_description = ''y2''\<rparr>,
      \<lparr>time = 1, a_description = ''swd1''\<rparr>, \<lparr>time = 2, a_description = ''swd2''\<rparr>]"
  let ?iv = "\<lparr>start = PyInt 1, end' = PyInt 2, description = ''swd''\<rparr>"
  have c: "create_intervals ?ms 0 [] = Inr [?iv]"
    by code_simp
  have a: "add_markup (PyFloat (11 / 2)) (PyInt 20) ''is'' [?iv] =
     [?iv, \<lparr>start = PyFloat (11 / 2), end' = PyInt 20, description = ''is''\<rparr>]"
    by (simp add: add_markup_def)
  have t0: "pair_test (?ms ! 0) (?ms ! 1) = Inr False" by code_simp
  have h1: "\<forall>k. 2 * k + 1 < length ?ms \<longrightarrow>
      pair_test (?ms ! (2 * k)) (?ms ! (2 * k + 1)) = Inr True \<longrightarrow>
      time (?ms ! (2 * k)) \<le> time (?ms ! (2 * k + 1))"
  proof (intro allI impI)
    fix k
    assume "2 * k + 1 < length ?ms"
      and p: "pair_test (?ms ! (2 * k)) (?ms ! (2 * k + 1)) = Inr True"
    then have "k = 0 \<or> k = 1" by auto
    then show "time (?ms ! (2 * k)) \<le> time (?ms ! (2 * k + 1))"
    proof
      assume "k = 0"
      with p t0 show ?thesis by simp
    next
      assume "k = 1"
      then show ?thesis by simp
    qed
  qed
  have h2: "num_val (PyFloat (11 / 2)) \<le> num_val (PyInt 20)" by simp
  have h3: "\<forall>iv \<in> set [?iv]. num_val (start iv) \<le> num_val (end' iv)"
    by simp
  from interval_order_preserved [OF h1 h2 h3, of "''is''"] c a show ?thesis by simp
qed

text \<open>
  Claim C5. For every sequence of lines, reading the annotations never fails, and the marker
  list is the list of the markers of the valid lines in their order: a line that does not
  split into exactly three whitespace-separated tokens, or whose time token the time codec
  rejects, contributes nothing and the lines after it are still read. The load of the
  annotations as a whole (reading, then pairing) returns an interval list for every
  sequence of lines.
\<close>

theorem malformed_lines_skipped:
  "read_annotations file_lines [] =
     Inr (map (the \<circ> line_marker) (filter (\<lambda>l. line_marker l \<noteq> None) file_lines)) \<and>
   (\<exists>intervals. load_annotations file_lines = Inr intervals)"
proof -
  let ?ms = "map (the \<circ> line_marker) (filter (\<lambda>l. line_marker l \<noteq> None) file_lines)"
  have r: "read_annotations file_lines [] = Inr ?ms"
    by (simp add: read_annotations_eq)
  have "\<forall>m \<in> set ?ms. a_description m \<noteq> []"
    using line_marker_label by fastforce
  then have "create_intervals ?ms 0 [] = Inr (pairing_spec ?ms)"
    by (rule create_intervals_spec)
  with r show ?thesis
    by (simp add: load_annotations_def)
qed

theorem malformed_lines_skipped_witness:
  "read_annotations
     [''1  00:00:05  swd1'', ''not a marker line at all'', ''1  00:xx:09  swd2'',
      ''1  00:00:09  swd2'', [], ''2 00:00:12 is1 extra''] [] =
   Inr [\<lparr>time = 5, a_description = ''swd1''\<rparr>, \<lparr>time = 9, a_description = ''swd2''\<rparr>]"
proof -
  let ?ls = "[''1  00:00:05  swd1'', ''not a marker line at all'', ''1  00:xx:09  swd2'',
      ''1  00:00:09  swd2'', [], ''2 00:00:12 is1 extra'']"
  have "map (the \<circ> line_marker) (filter (\<lambda>l. line_marker l \<noteq> None) ?ls) =
      [\<lparr>time = 5, a_description = ''swd1''\<rparr>, \<lparr>time = 9, a_description = ''swd2''\<rparr>]"
    by code_simp
  with malformed_lines_skipped [of ?ls] show ?thesis by simp
qed

text \<open>
  Claim C6. With an integer token read in the plain sense, an optional sign and decimal
  digits, \<open>time_to_seconds\<close> does not fail on every other string: \<open>int\<close> also accepts
  single underscores between digits and whitespace around the numeral. The text
  \<open>1_0: 2:3\<close> gives 36123, although its tokens \<open>1_0\<close> and \<open> 2\<close> are no plain integers.
\<close>

theorem time_to_seconds_plain_counterexample:
  "time_to_seconds ''1_0: 2:3'' = Inr 36123 \<and>
   py_split_sep CHR '':'' ''1_0: 2:3'' = [''1_0'', '' 2'', ''3''] \<and>
   \<not> plain_integer ''1_0'' \<and> \<not> plain_integer '' 2''"
  by code_simp

text \<open>
  Claim C6, amended. \<open>time_to_seconds\<close> returns a value exactly when its argument consists
  of three tokens separated by two colons, each token an integer as \<open>int\<close> reads it
  (\<open>int_text\<close>: an optional sign and decimal digits, single underscores allowed between
  digits, whitespace allowed around), and the value is then \<open>h * 3600 + m * 60 + s\<close> for
  the three integers; on every other string it fails with the ValueError.
\<close>

theorem time_to_seconds_char:
  "(time_to_seconds t = Inr v \<longleftrightarrow>
     (\<exists>a b c h m s. t = a @ '':'' @ b @ '':'' @ c \<and>
        CHR '':'' \<notin> set a \<and> CHR '':'' \<notin> set b \<and> CHR '':'' \<notin> set c \<and>
        int_text a h \<and> int_text b m \<and> int_text c s \<and>
        v = h * 3600 + m * 60 + s)) \<and>
   ((\<nexists>v. time_to_seconds t = Inr v) \<longrightarrow> time_to_seconds t = Inl ValueError)"
  using time_to_seconds_tokens [of t v] unfolding py_int_iff .

theorem time_to_seconds_char_witness:
  "time_to_seconds ''01:02:05'' = Inr 3725 \<and> time_to_seconds ''01:02'' = Inl ValueError \<and>
   time_to_seconds ''01:xx:05'' = Inl ValueError"
proof -
  have "py_int ''01'' = Some 1" "py_int ''02'' = Some 2" "py_int ''05'' = Some 5"
    by code_simp+
  then have i: "int_text ''01'' 1" "int_text ''02'' 2" "int_text ''05'' 5"
    by (simp_all only: py_int_iff)
  have "\<exists>a b c h m s. ''01:02:05'' = a @ '':'' @ b @ '':'' @ c \<and>
        CHR '':'' \<notin> set a \<and> CHR '':'' \<notin> set b \<and> CHR '':'' \<notin> set c \<and>
        int_text a h \<and> int_text b m \<and> int_text c s \<and>
        (3725::int) = h * 3600 + m * 60 + s"
    using i
    by (intro exI [of _ "''01''"] exI [of _ "''02''"] exI [of _ "''05''"]
          exI [of _ "1::int"] exI [of _ "2::int"] exI [of _ "5::int"]) simp
  then have a: "time_to_seconds ''01:02:05'' = Inr 3725"
    using time_to_seconds_char [of "''01:02:05''" 3725] by blast
  have "time_to_seconds ''01:02'' = Inl ValueError" by code_simp
  then have n1: "\<nexists>v. time_to_seconds ''01:02'' = Inr v" by simp
  have "time_to_seconds ''01:xx:05'' = Inl ValueError" by code_simp
  then have n2: "\<nexists>v. time_to_seconds ''01:xx:05'' = Inr v" by simp
  from a n1 n2 time_to_seconds_char [of "''01:02''"] time_to_seconds_char [of "''01:xx:05''"]
  show ?thesis by blast
qed

text \<open>
  Claim C7. When the selected text starts with the display position \<open>p\<close> and
  \<open>1 \<le> p \<le> n\<close>, where \<open>n\<close> is the length of the concatenation of the pre-existing and
  the user-added intervals, \<open>delete_markup\<close> returns that concatenation without its
  element at position \<open>p\<close>, and the display list it derives is one entry shorter than the
  display list of the concatenation, its entry \<open>k\<close> (counted from 0) starting with the
  number \<open>k + 1\<close>.
\<close>

theorem delete_markup_position:
  assumes "py_int (hd (py_split_sep CHR '':'' selected_interval)) = Some p"
    and "1 \<le> p" and "p \<le> int (length (existing_intervals @ markup_intervals))"
  shows "\<exists>remaining choices.
           delete_markup selected_interval existing_intervals markup_intervals =
             Inr (remaining, choices) \<and>
           remaining = take (nat p - 1) (existing_intervals @ markup_intervals) @
                       drop (nat p) (existing_intervals @ markup_intervals) \<and>
           choices = interval_choices remaining \<and>
           length choices + 1 =
             length (interval_choices (existing_intervals @ markup_intervals)) \<and>
           (\<forall>k < length choices.
              py_int (hd (py_split_sep CHR '':'' (choices ! k))) = Some (int k + 1))"
proof -
  define xs where "xs = existing_intervals @ markup_intervals"
  define remaining where "remaining = take (nat p - 1) xs @ drop (nat p) xs"
  have d: "delete_markup selected_interval existing_intervals markup_intervals =
      Inr (remaining, interval_choices remaining)"
    using delete_markup_valid [OF assms] unfolding remaining_def xs_def .
  have "nat p - 1 < length xs" "nat p - 1 + 1 = nat p"
    using assms(2,3) unfolding xs_def by simp_all
  then have "length remaining + 1 = length xs"
    using delete_at_length [of "nat p - 1" xs] unfolding remaining_def by simp
  then have l: "length (interval_choices remaining) + 1 = length (interval_choices xs)"
    by (simp only: length_interval_choices)
  have n: "\<forall>k < length (interval_choices remaining).
      py_int (hd (py_split_sep CHR '':'' (interval_choices remaining ! k))) = Some (int k + 1)"
    using interval_choices_numbered by blast
  from d l n show ?thesis
    unfolding remaining_def xs_def by blast
qed

theorem delete_markup_position_witness:
  "delete_markup ''2: 00:00:12 - 00:00:20 (is)''
     [\<lparr>start = PyInt 5, end' = PyInt 9, description = ''swd''\<rparr>,
      \<lparr>start = PyInt 12, end' = PyInt 20, description = ''is''\<rparr>]
     [\<lparr>start = PyInt 30, end' = PyInt 41, description = ''ds''\<rparr>] =
   Inr ([\<lparr>start = PyInt 5, end' = PyInt 9, description = ''swd''\<rparr>,
         \<lparr>start = PyInt 30, end' = PyInt 41, description = ''ds''\<rparr>],
        [''1: 00:00:05 - 00:00:09 (swd)'', ''2: 00:00:30 - 00:00:41 (ds)''])"
proof -
  let ?ex = "[\<lparr>start = PyInt 5, end' = PyInt 9, description = ''swd''\<rparr>,
      \<lparr>start = PyInt 12, end' = PyInt 20, description = ''is''\<rparr>]"
  let ?mk = "[\<lparr>start = PyInt 30, end' = PyInt 41, description = ''ds''\<rparr>]"
  have p: "py_int (hd (py_split_sep CHR '':'' ''2: 00:00:12 - 00:00:20 (is)'')) = Some 2"
    by code_simp
  have r: "(1::int) \<le> 2" "2 \<le> int (length (?ex @ ?mk))" by simp_all
  have t: "take (nat 2 - 1) (?ex @ ?mk) @ drop (nat 2) (?ex @ ?mk) =
      [\<lparr>start = PyInt 5, end' = PyInt 9, description = ''swd''\<rparr>,
       \<lparr>start = PyInt 30, end' = PyInt 41, description = ''ds''\<rparr>]"
    by code_simp
  have c: "interval_choices [\<lparr>start = PyInt 5, end' = PyInt 9, description = ''swd''\<rparr>,
         \<lparr>start = PyInt 30, end' = PyInt 41, description = ''ds''\<rparr>] =
       [''1: 00:00:05 - 00:00:09 (swd)'', ''2: 00:00:30 - 00:00:41 (ds)'']"
    by code_simp
  from delete_markup_position [OF p r] obtain remaining choices where
    d: "delete_markup ''2: 00:00:12 - 00:00:20 (is)'' ?ex ?mk = Inr (remaining, choices)" and
    rm: "remaining = take (nat 2 - 1) (?ex @ ?mk) @ drop (nat 2) (?ex @ ?mk)" and
    ch: "choices = interval_choices remaining"
    by (elim exE conjE)
  from rm have rm': "remaining = [\<lparr>start = PyInt 5, end' = PyInt 9, description = ''swd''\<rparr>,
       \<lparr>start = PyInt 30, end' = PyInt 41, description = ''ds''\<rparr>]"
    by (simp only: t)
  from ch have "choices = [''1: 00:00:05 - 00:00:09 (swd)'', ''2: 00:00:30 - 00:00:41 (ds)'']"
    by (simp only: rm' c)
  with d rm' show ?thesis by (simp only:)
qed

text \<open>
  Claim C8. An index outside \<open>0 \<dots> n - 1\<close> does not always make \<open>edit_markup\<close> and
  \<open>delete_markup\<close> fail: a Python list takes a negative index down to \<open>- n\<close> as a
  position counted from the end. The display position 0 gives the index \<open>- 1\<close>; on a list
  of one interval \<open>edit_markup\<close> then edits that interval and \<open>delete_markup\<close> removes
  it.
\<close>

theorem index_error_counterexample:
  "selected_index ''0: 00:00:05 - 00:00:09 (swd)'' = Inr (- 1) \<and>
   \<not> (0 \<le> (- 1 :: int) \<and> - 1 < int (length ([0::nat] @ []))) \<and>
   edit_markup example_store ''0: 00:00:05 - 00:00:09 (swd)'' (PyInt 1) (PyInt 2) ''ds'' [0] [] =
     Inr (example_store(0 := \<lparr>start = PyInt 1, end' = PyInt 2, description = ''ds''\<rparr>), [0],
          [''1: 00:00:01 - 00:00:02 (ds)'']) \<and>
   delete_markup ''0: 00:00:05 - 00:00:09 (swd)''
     [\<lparr>start = PyInt 5, end' = PyInt 9, description = ''swd''\<rparr>] [] = Inr ([], [])"
proof -
  have s: "selected_index ''0: 00:00:05 - 00:00:09 (swd)'' = Inr (- 1)"
    by code_simp
  have i: "py_index (length ([0::nat] @ [])) (- 1) = Inr 0"
    by (simp add: py_index_def)
  have c: "interval_choices [\<lparr>start = PyInt 1, end' = PyInt 2, description = ''ds''\<rparr>] =
      [''1: 00:00:01 - 00:00:02 (ds)'']"
    by code_simp
  have e: "edit_markup example_store ''0: 00:00:05 - 00:00:09 (swd)'' (PyInt 1) (PyInt 2) ''ds'' [0] [] =
     Inr (example_store(0 := \<lparr>start = PyInt 1, end' = PyInt 2, description = ''ds''\<rparr>), [0],
          [''1: 00:00:01 - 00:00:02 (ds)''])"
    unfolding edit_markup_def Let_def s sum.case i
    by (simp add: example_store_def c)
  have d: "delete_markup ''0: 00:00:05 - 00:00:09 (swd)''
     [\<lparr>start = PyInt 5, end' = PyInt 9, description = ''swd''\<rparr>] [] = Inr ([], [])"
    by code_simp
  from s e d show ?thesis by simp
qed

text \<open>
  Claim C8, amended. When the index derived from the selected text is at least \<open>n\<close> or
  below \<open>- n\<close>, where \<open>n\<close> is the length of the concatenation of the pre-existing and
  the user-added intervals, \<open>edit_markup\<close> and \<open>delete_markup\<close> fail with the
  IndexError and return no list.
\<close>

theorem index_error_outside:
  assumes "py_int (hd (py_split_sep CHR '':'' selected_interval)) = Some p"
    and "int (length (existing_refs @ markup_refs)) \<le> p - 1 \<or>
         p - 1 < - int (length (existing_refs @ markup_refs))"
    and "length (existing_intervals @ markup_intervals) = length (existing_refs @ markup_refs)"
  shows "edit_markup st selected_interval start_time end_time label existing_refs markup_refs =
           Inl IndexError \<and>
         delete_markup selected_interval existing_intervals markup_intervals = Inl IndexError"
proof -
  have "py_index (length (existing_refs @ markup_refs)) (p - 1) = Inl IndexError"
    using assms(2) by (rule py_index_outside)
  moreover have "py_index (length (existing_intervals @ markup_intervals)) (p - 1) = Inl IndexError"
    using assms(2) unfolding assms(3) by (rule py_index_outside)
  ultimately show ?thesis
    unfolding edit_markup_def delete_markup_def selected_index_def Let_def
    by (simp only: assms(1) option.case sum.case simp_thms)
qed

theorem index_error_outside_witness:
  "edit_markup example_store ''3: 00:00:12 - 00:00:20 (is)'' (PyInt 1) (PyInt 2) ''ds'' [0] [1] = Inl IndexError \<and>
   delete_markup ''3: 00:00:12 - 00:00:20 (is)''
     [\<lparr>start = PyInt 5, end' = PyInt 9, description = ''swd''\<rparr>]
     [\<lparr>start = PyInt 12, end' = PyInt 20, description = ''is''\<rparr>] = Inl IndexError"
proof -
  have p: "py_int (hd (py_split_sep CHR '':'' ''3: 00:00:12 - 00:00:20 (is)'')) = Some 3"
    by code_simp
  have r: "int (length ([0::nat] @ [1])) \<le> 3 - 1 \<or> (3::int) - 1 < - int (length ([0::nat] @ [1]))"
    by simp
  have l: "length ([\<lparr>start = PyInt 5, end' = PyInt 9, description = ''swd''\<rparr>] @
       [\<lparr>start = PyInt 12, end' = PyInt 20, description = ''is''\<rparr>]) = length ([0::nat] @ [1])"
    by simp
  from index_error_outside [OF p r l] show ?thesis .
qed

text \<open>
  Claim C9. \<open>edit_markup\<close> writes into the dictionary it finds at the selected position,
  so every other position of the list that holds the same dictionary changes with it. With the
  same dictionary in \<open>existing_intervals\<close> and in \<open>markup_intervals\<close>, editing position 1
  also changes position 2.
\<close>

theorem edit_markup_frame_counterexample:
  "edit_markup example_store ''1: 00:00:05 - 00:00:09 (swd)'' (PyInt 1) (PyInt 2) ''ds'' [0] [0] =
     Inr (example_store(0 := \<lparr>start = PyInt 1, end' = PyInt 2, description = ''ds''\<rparr>), [0, 0],
          [''1: 00:00:01 - 00:00:02 (ds)'', ''2: 00:00:01 - 00:00:02 (ds)'']) \<and>
   (example_store(0 := \<lparr>start = PyInt 1, end' = PyInt 2, description = ''ds''\<rparr>)) ([0, 0] ! 1) \<noteq>
     example_store (([0] @ [0]) ! 1)"
proof -
  have s: "selected_index ''1: 00:00:05 - 00:00:09 (swd)'' = Inr 0"
    by code_simp
  have i: "py_index (length ([0::nat] @ [0])) 0 = Inr 0"
    by (simp add: py_index_def)
  have c: "interval_choices [\<lparr>start = PyInt 1, end' = PyInt 2, description = ''ds''\<rparr>,
        \<lparr>start = PyInt 1, end' = PyInt 2, description = ''ds''\<rparr>] =
      [''1: 00:00:01 - 00:00:02 (ds)'', ''2: 00:00:01 - 00:00:02 (ds)'']"
    by code_simp
  have e: "edit_markup example_store ''1: 00:00:05 - 00:00:09 (swd)'' (PyInt 1) (PyInt 2) ''ds'' [0] [0] =
     Inr (example_store(0 := \<lparr>start = PyInt 1, end' = PyInt 2, description = ''ds''\<rparr>), [0, 0],
          [''1: 00:00:01 - 00:00:02 (ds)'', ''2: 00:00:01 - 00:00:02 (ds)''])"
    unfolding edit_markup_def Let_def s sum.case i
    by (simp add: example_store_def c)
  then show ?thesis by (simp add: example_store_def)
qed

text \<open>
  Claim C9, amended. For every valid selected position \<open>p\<close>, \<open>edit_markup\<close> returns the
  concatenation of its two lists, so a list of the same length, in which the interval at
  position \<open>p\<close> has the new start, end and description, and every position that holds
  another dictionary than the one at position \<open>p\<close> keeps its start, end and description.
\<close>

theorem edit_markup_frame:
  assumes "py_int (hd (py_split_sep CHR '':'' selected_interval)) = Some p"
    and "1 \<le> p" and "p \<le> int (length (existing_intervals @ markup_intervals))"
  shows "\<exists>st' all_intervals choices.
           edit_markup st selected_interval start_time end_time label
             existing_intervals markup_intervals = Inr (st', all_intervals, choices) \<and>
           all_intervals = existing_intervals @ markup_intervals \<and>
           st' (all_intervals ! (nat p - 1)) =
             \<lparr>start = start_time, end' = end_time, description = label\<rparr> \<and>
           (\<forall>q < length all_intervals.
              all_intervals ! q \<noteq> all_intervals ! (nat p - 1) \<longrightarrow>
              st' (all_intervals ! q) = st (all_intervals ! q))"
proof -
  define xs where "xs = existing_intervals @ markup_intervals"
  define st' where "st' = st(xs ! (nat p - 1) :=
      \<lparr>start = start_time, end' = end_time, description = label\<rparr>)"
  have e: "edit_markup st selected_interval start_time end_time label
      existing_intervals markup_intervals = Inr (st', xs, interval_choices (map st' xs))"
    using edit_markup_valid [OF assms] unfolding st'_def xs_def .
  have a: "st' (xs ! (nat p - 1)) = \<lparr>start = start_time, end' = end_time, description = label\<rparr>"
    by (simp add: st'_def)
  have b: "\<forall>q < length xs. xs ! q \<noteq> xs ! (nat p - 1) \<longrightarrow> st' (xs ! q) = st (xs ! q)"
    by (simp add: st'_def)
  from e a b show ?thesis
    unfolding xs_def by blast
qed

theorem edit_markup_frame_witness:
  "edit_markup example_store ''2: 00:00:05 - 00:00:09 (swd)'' (PyInt 1) (PyInt 2) ''ds'' [0] [1, 2] =
     Inr (example_store(1 := \<lparr>start = PyInt 1, end' = PyInt 2, description = ''ds''\<rparr>), [0, 1, 2],
          [''1: 00:00:05 - 00:00:09 (swd)'', ''2: 00:00:01 - 00:00:02 (ds)'',
           ''3: 00:00:05 - 00:00:09 (swd)'']) \<and>
   (example_store(1 := \<lparr>start = PyInt 1, end' = PyInt 2, description = ''ds''\<rparr>)) ([0, 1, 2] ! 1) =
     \<lparr>start = PyInt 1, end' = PyInt 2, description = ''ds''\<rparr> \<and>
   (example_store(1 := \<lparr>start = PyInt 1, end' = PyInt 2, description = ''ds''\<rparr>)) ([0, 1, 2] ! 0) =
     example_store ([0, 1, 2] ! 0) \<and>
   (example_store(1 := \<lparr>start = PyInt 1, end' = PyInt 2, description = ''ds''\<rparr>)) ([0, 1, 2] ! 2) =
     example_store ([0, 1, 2] ! 2)"
proof -
  let ?st = "example_store(1 := \<lparr>start = PyInt 1, end' = PyInt 2, description = ''ds''\<rparr>)"
  have p: "py_int (hd (py_split_sep CHR '':'' ''2: 00:00:05 - 00:00:09 (swd)'')) = Some 2"
    by code_simp
  have r: "(1::int) \<le> 2" "2 \<le> int (length ([0::nat] @ [1, 2]))" by simp_all
  from edit_markup_frame [OF p r, of example_store "PyInt 1" "PyInt 2" "''ds''"]
  obtain st' xs choices where
    e: "edit_markup example_store ''2: 00:00:05 - 00:00:09 (swd)'' (PyInt 1) (PyInt 2) ''ds'' [0] [1, 2] =
          Inr (st', xs, choices)" and
    xs: "xs = [0] @ [1, 2]" and
    a: "st' (xs ! (nat 2 - 1)) = \<lparr>start = PyInt 1, end' = PyInt 2, description = ''ds''\<rparr>" and
    b: "\<forall>q < length xs. xs ! q \<noteq> xs ! (nat 2 - 1) \<longrightarrow> st' (xs ! q) = example_store (xs ! q)"
    by (elim exE conjE)
  have s: "selected_index ''2: 00:00:05 - 00:00:09 (swd)'' = Inr 1"
    by code_simp
  have i: "py_index (length ([0::nat] @ [1, 2])) 1 = Inr 1"
    by (simp add: py_index_def)
  have c: "interval_choices [\<lparr>start = PyInt 5, end' = PyInt 9, description = ''swd''\<rparr>,
        \<lparr>start = PyInt 1, end' = PyInt 2, description = ''ds''\<rparr>,
        \<lparr>start = PyInt 5, end' = PyInt 9, description = ''swd''\<rparr>] =
      [''1: 00:00:05 - 00:00:09 (swd)'', ''2: 00:00:01 - 00:00:02 (ds)'',
       ''3: 00:00:05 - 00:00:09 (swd)'']"
    by code_simp
  have v: "edit_markup example_store ''2: 00:00:05 - 00:00:09 (swd)'' (PyInt 1) (PyInt 2) ''ds'' [0] [1, 2] =
     Inr (?st, [0, 1, 2],
          [''1: 00:00:05 - 00:00:09 (swd)'', ''2: 00:00:01 - 00:00:02 (ds)'',
           ''3: 00:00:05 - 00:00:09 (swd)''])"
    unfolding edit_markup_def Let_def s sum.case i
    by (simp add: example_store_def c)
  from e v have st: "st' = ?st" and xs': "xs = [0, 1, 2]" by simp_all
  from a have a': "?st ([0, 1, 2] ! 1) = \<lparr>start = PyInt 1, end' = PyInt 2, description = ''ds''\<rparr>"
    unfolding st xs' by simp
  from b have "?st ([0, 1, 2] ! 0) = example_store ([0, 1, 2] ! 0)"
    unfolding st xs' by simp
  moreover from b have "?st ([0, 1, 2] ! 2) = example_store ([0, 1, 2] ! 2)"
    unfolding st xs' by simp
  ultimately show ?thesis using v a' by (simp only: simp_thms)
qed

text \<open>
  Claim C10. On a marker list of odd length the pairing returns what it returns on the list
  without its final marker: the final marker is read by no step of the loop, so it is part
  of no interval and raises no error, whatever its label.
\<close>

theorem trailing_marker_ignored:
  assumes "odd (length ms)"
  shows "create_intervals ms 0 [] = create_intervals (butlast ms) 0 []"
proof -
  from assms have ne: "ms \<noteq> []" by auto
  then have ms: "ms = butlast ms @ [last ms]" by simp
  from assms ne have "even (length (butlast ms))" by simp
  then have "create_intervals (butlast ms @ [last ms]) 0 [] = create_intervals (butlast ms) 0 []"
    by (intro create_intervals_last) simp_all
  with ms show ?thesis by simp
qed

theorem trailing_marker_ignored_witness:
  "create_intervals
     [\<lparr>time = 5, a_description = ''swd1''\<rparr>, \<lparr>time = 9, a_description = ''swd2''\<rparr>,
      \<lparr>time = 12, a_description = ''is1''\<rparr>] 0 [] =
   Inr [\<lparr>start = PyInt 5, end' = PyInt 9, description = ''swd''\<rparr>]"
proof -
  let ?ms = "[\<lparr>time = 5, a_description = ''swd1''\<rparr>, \<lparr>time = 9, a_description = ''swd2''\<rparr>,
      \<lparr>time = 12, a_description = ''is1''\<rparr>]"
  have o: "odd (length ?ms)" by simp
  have "create_intervals (butlast ?ms) 0 [] = Inr [\<lparr>start = PyInt 5, end' = PyInt 9, description = ''swd''\<rparr>]"
    by code_simp
  with trailing_marker_ignored [OF o] show ?thesis by simp
qed

end
